theory Spec2Isabelle
  imports Main "HOL-Library.Multiset"
begin

section \<open>Constants of const.h\<close>

definition SUCCESS :: int where
  "SUCCESS = 0"

definition FAILURE :: int where
  "FAILURE = 1"

definition MAX_STR_LEN :: nat where
  "MAX_STR_LEN = 512"

section \<open>Standard output, the scanner of getopt, the static flags\<close>

text \<open>
  Everything \<open>get_args\<close> prints goes to standard output, and nothing it calls reads
  standard output back: a call is modelled with the list of the events it emits, in
  order. One \<open>Printf\<close> event is one call of \<open>printf\<close> with the text it writes.
  \<open>RETURN_ERROR\<close> is a macro of utilities.h, which is not among the sources; what it
  writes is kept as an event of its own, holding the message and the module name it is
  given.
\<close>

datatype event = Printf string | Error_message string string

datatype ordering = REQUIRE_ORDER | PERMUTE

text \<open>
  The three variables a flag-setting entry of \<open>long_options\<close> points to are function-static:
  they are part of the process, zero when it starts, and live across calls.
\<close>

datatype flag_var = Verbose_flag | Debug_flag | Use_tape6_flag

datatype has_arg_t = no_argument | required_argument

record option_t =
  name :: string
  has_arg :: has_arg_t
  flag :: "flag_var option"
  val :: int

text \<open>
  The state of the process that \<open>get_args\<close> reads and writes besides its parameters:
  the globals of getopt (\<open>opterr\<close>, \<open>optind\<close>, \<open>optarg\<close>), the private data of the GNU
  scanner (whether it is initialised, the rest of a cluster of short options, the
  ordering, the bounds of the non-options skipped so far), whether the environment sets
  POSIXLY_CORRECT, and the three static flags.
  \<open>optind\<close> is a C int that is never negative; the rest of a short-option cluster
  is the empty string where the C pointer is null or at the terminating zero.
  A process that has just started has the values the C library and the static
  initialisers give.
\<close>

record process =
  posixly_correct :: bool
  opterr :: int
  optind :: nat
  optarg :: "string option"
  getopt_initialized :: bool
  nextchar :: string
  ordering :: ordering
  first_nonopt :: nat
  last_nonopt :: nat
  verbose_flag :: int
  debug_flag :: int
  use_tape6_flag :: int

definition process_start :: "bool \<Rightarrow> process" where
  "process_start env_posixly_correct =
     \<lparr>posixly_correct = env_posixly_correct, opterr = 1, optind = 1, optarg = None,
      getopt_initialized = False, nextchar = [], ordering = REQUIRE_ORDER,
      first_nonopt = 0, last_nonopt = 0,
      verbose_flag = 0, debug_flag = 0, use_tape6_flag = 0\<rparr>"

text \<open>The memory of the caller that \<open>get_args\<close> writes through its pointer parameters.\<close>

record config =
  xml_filename :: string
  use_tape6 :: bool
  verbose :: bool
  debug :: bool

text \<open>
  Outcomes of \<open>get_args\<close> that are no return: \<open>sprintf\<close> writing past the end of
  \<open>errmsg\<close>, and reads the C code makes without a check (a null \<open>optarg\<close>, an
  \<open>option_index\<close> never written, an element of \<open>argv\<close> out of range).
\<close>

datatype error = Errmsg_overflow | Null_optarg | Option_index_unset | Argv_out_of_range

section \<open>usage\<close>

definition usage_text :: "event list" where
  "usage_text =
    [Printf ''Landsat Surface Temperature\<newline>'',
     Printf ''\<newline>'',
     Printf ''usage: scene_based_lst --xml=input_xml_filename [--use-tape6] [--verbose] [--debug]\<newline>'',
     Printf ''\<newline>'',
     Printf ''where the following parameters are required:\<newline>'',
     Printf ''    --xml: name of the input XML file\<newline>'',
     Printf ''\<newline>'',
     Printf ''where the following parameters are optional:\<newline>'',
     Printf ''    --use-tape6: use the values from the MODTRAN generated tape6 file? (default is false)\<newline>'',
     Printf ''    --verbose: should intermediate messages be printed? (default is false)\<newline>'',
     Printf ''    --debug: should debug output be generated? (default is false)\<newline>'',
     Printf ''\<newline>'',
     Printf ''scene_based_lst --help will print the usage statement\<newline>'',
     Printf ''\<newline>'',
     Printf ''Example: scene_based_lst --xml=LE70390032010263EDC00.xml --verbose\<newline>'',
     Printf ''Note: The scene_based_lst must run from the directory where the input data are located.\<newline>\<newline>'']"

text \<open>\<open>usage ()\<close> takes no argument and prints the text: a call emits these events.\<close>

definition usage :: "event list" where
  "usage = usage_text"

text \<open>
  Modelled from the spec: \<open>RETURN_ERROR\<close> is declared in utilities.h, which is missing.
  The spec has the error surfaced to the caller after the usage text: the macro writes
  the message for the module and returns the status.
\<close>

definition RETURN_ERROR :: "string \<Rightarrow> string \<Rightarrow> int \<Rightarrow> int \<times> event list" where
  "RETURN_ERROR message module status = (status, [Error_message message module])"

section \<open>getopt_long of the C library, for an empty optstring\<close>

text \<open>
  \<open>get_args\<close> calls \<open>getopt_long (argc, argv, "", long_options, &option_index)\<close>. The
  function is the C library's; it is modelled after the GNU implementation, for the empty
  \<open>optstring\<close> the call passes (no short option is valid, and the ordering is PERMUTE
  unless POSIXLY_CORRECT is set) and with \<open>opterr = 0\<close> (nothing is written to standard
  error). \<open>argc\<close> is the length of \<open>argv\<close>, whose first element is the program name;
  the elements are C strings, taken to hold no zero character.
  The values returned are C ints: -1 at the end of the options, 0 for an entry that sets
  a flag, and the character codes 105 for \<open>'i'\<close>, 104 for \<open>'h'\<close> and 63 for \<open>'?'\<close>.
  A null flag pointer of an entry is \<open>None\<close>.
\<close>

definition long_options :: "option_t list" where
  "long_options =
    [\<lparr>name = ''verbose'', has_arg = no_argument, flag = Some Verbose_flag, val = 1\<rparr>,
     \<lparr>name = ''debug'', has_arg = no_argument, flag = Some Debug_flag, val = 1\<rparr>,
     \<lparr>name = ''use-tape6'', has_arg = no_argument, flag = Some Use_tape6_flag, val = 1\<rparr>,
     \<lparr>name = ''xml'', has_arg = required_argument, flag = None, val = 105\<rparr>,
     \<lparr>name = ''help'', has_arg = no_argument, flag = None, val = 104\<rparr>]"

definition set_flag :: "flag_var \<Rightarrow> int \<Rightarrow> process \<Rightarrow> process" where
  "set_flag f v p =
     (case f of
        Verbose_flag \<Rightarrow> p\<lparr>verbose_flag := v\<rparr>
      | Debug_flag \<Rightarrow> p\<lparr>debug_flag := v\<rparr>
      | Use_tape6_flag \<Rightarrow> p\<lparr>use_tape6_flag := v\<rparr>)"

definition getopt_initialize :: "process \<Rightarrow> process" where
  "getopt_initialize p0 =
     (let p = (if optind p0 = 0 then p0\<lparr>optind := 1\<rparr> else p0)
      in p\<lparr>first_nonopt := optind p, last_nonopt := optind p, nextchar := [],
            ordering := (if posixly_correct p then REQUIRE_ORDER else PERMUTE),
            getopt_initialized := True\<rparr>)"

text \<open>\<open>argv[optind][0] != '-' || argv[optind][1] == '\0'\<close>\<close>

definition NONOPTION_P :: "string \<Rightarrow> bool" where
  "NONOPTION_P a = (case a of [] \<Rightarrow> True | c # cs \<Rightarrow> c \<noteq> CHR ''-'' \<or> cs = [])"

text \<open>
  \<open>exchange\<close> swaps the non-options skipped so far, \<open>argv[first_nonopt .. last_nonopt - 1]\<close>,
  with the options scanned after them, \<open>argv[last_nonopt .. optind - 1]\<close>, keeping the
  order inside each block: the window from \<open>first_nonopt\<close> to \<open>optind\<close> is rotated left by
  the number of non-options.
\<close>

definition exchange :: "string list \<Rightarrow> process \<Rightarrow> string list \<times> process" where
  "exchange argv p =
     (let bottom = first_nonopt p; middle = last_nonopt p; top = optind p
      in (take bottom argv
            @ rotate (middle - bottom) (take (top - bottom) (drop bottom argv))
            @ drop top argv,
          p\<lparr>first_nonopt := first_nonopt p + (optind p - last_nonopt p),
            last_nonopt := optind p\<rparr>))"

definition skip_nonoptions :: "string list \<Rightarrow> nat \<Rightarrow> nat" where
  "skip_nonoptions argv i = i + length (takeWhile NONOPTION_P (drop i argv))"

definition permute_step :: "string list \<Rightarrow> process \<Rightarrow> string list \<times> process" where
  "permute_step argv p =
     (let (argv1, p1) =
            (if first_nonopt p \<noteq> last_nonopt p \<and> last_nonopt p \<noteq> optind p then exchange argv p
             else if last_nonopt p \<noteq> optind p then (argv, p\<lparr>first_nonopt := optind p\<rparr>)
             else (argv, p));
          p2 = p1\<lparr>optind := skip_nonoptions argv1 (optind p1)\<rparr>
      in (argv1, p2\<lparr>last_nonopt := optind p2\<rparr>))"

definition end_of_options :: "string list \<Rightarrow> process \<Rightarrow> string list \<times> process" where
  "end_of_options argv p =
     (let p1 = p\<lparr>optind := optind p + 1\<rparr>;
          (argv2, p2) =
            (if first_nonopt p1 \<noteq> last_nonopt p1 \<and> last_nonopt p1 \<noteq> optind p1 then exchange argv p1
             else if first_nonopt p1 = last_nonopt p1 then (argv, p1\<lparr>first_nonopt := optind p1\<rparr>)
             else (argv, p1))
      in (argv2, p2\<lparr>last_nonopt := length argv2, optind := length argv2\<rparr>))"

text \<open>
  The entries of \<open>long_options\<close> whose name matches: \<open>strncmp (p->name, nextchar, namelen)\<close>
  is zero when the first \<open>namelen\<close> characters of the name are the name typed.
\<close>

definition matching :: "(option_t \<Rightarrow> bool) \<Rightarrow> nat list" where
  "matching P = filter (\<lambda>i. P (long_options ! i)) [0..<length long_options]"

definition same_action :: "option_t \<Rightarrow> option_t \<Rightarrow> bool" where
  "same_action a b = (has_arg a = has_arg b \<and> flag a = flag b \<and> val a = val b)"

text \<open>
  A long option was found at index \<open>i\<close>; \<open>nameend\<close> is the rest of the element from the
  first \<open>=\<close> on (empty when there is none).
\<close>

definition long_option_found ::
  "nat \<Rightarrow> string \<Rightarrow> nat option \<Rightarrow> string list \<Rightarrow> process \<Rightarrow> int \<times> nat option \<times> process" where
  "long_option_found i nameend longind argv p0 =
     (let pfound = long_options ! i;
          p = p0\<lparr>optind := optind p0 + 1, nextchar := []\<rparr>;
          finish = (\<lambda>q. case flag pfound of
                           Some f \<Rightarrow> (0, Some i, set_flag f (val pfound) q)
                         | None \<Rightarrow> (val pfound, Some i, q))
      in if nameend \<noteq> [] then
           (if has_arg pfound \<noteq> no_argument then finish (p\<lparr>optarg := Some (tl nameend)\<rparr>)
            else (63, longind, p))
         else if has_arg pfound = required_argument then
           (if optind p < length argv
            then finish (p\<lparr>optarg := Some (argv ! optind p), optind := optind p + 1\<rparr>)
            else (63, longind, p))
         else finish p)"

definition process_long_option ::
  "nat option \<Rightarrow> string list \<Rightarrow> process \<Rightarrow> int \<times> nat option \<times> process" where
  "process_long_option longind argv p =
     (let nm = takeWhile (\<lambda>c. c \<noteq> CHR ''='') (nextchar p);
          nameend = dropWhile (\<lambda>c. c \<noteq> CHR ''='') (nextchar p);
          namelen = length nm
      in case matching (\<lambda>e. take namelen (name e) = nm \<and> namelen = length (name e)) of
           i # _ \<Rightarrow> long_option_found i nameend longind argv p
         | [] \<Rightarrow>
            (case matching (\<lambda>e. take namelen (name e) = nm) of
               [] \<Rightarrow> (63, longind, p\<lparr>nextchar := [], optind := optind p + 1\<rparr>)
             | i # later \<Rightarrow>
                 if \<exists>j \<in> set later. \<not> same_action (long_options ! i) (long_options ! j)
                 then (63, longind, p\<lparr>nextchar := [], optind := optind p + 1\<rparr>)
                 else long_option_found i nameend longind argv p))"

text \<open>
  The next character of a cluster of short options. \<open>optstring\<close> is empty, so the
  character is never a valid option: the result is \<open>'?'\<close>. \<open>optind\<close> moves on only when
  the character was the last of its element.
\<close>

definition short_option :: "char \<Rightarrow> string \<Rightarrow> process \<Rightarrow> int \<times> process" where
  "short_option c rest p =
     (let p1 = p\<lparr>nextchar := rest\<rparr>;
          p2 = (if nextchar p1 = [] then p1\<lparr>optind := optind p1 + 1\<rparr> else p1)
      in (63, p2))"

text \<open>
  Every call starts by clearing \<open>optarg\<close>, and initialises the scanner when \<open>optind\<close>
  is 0 or on the first call.
\<close>

definition getopt_prepare :: "process \<Rightarrow> process" where
  "getopt_prepare p0 =
     (let p1 = p0\<lparr>optarg := None\<rparr>
      in if optind p1 = 0 \<or> \<not> getopt_initialized p1 then getopt_initialize p1 else p1)"

text \<open>
  Advancing to the next element of \<open>argv\<close>: the bounds of the skipped non-options are
  brought back under \<open>optind\<close>, under PERMUTE the options just scanned are exchanged with
  the non-options before them and the non-options that follow are skipped, and the
  element \<open>--\<close> ends the options.
\<close>

definition next_element :: "string list \<Rightarrow> process \<Rightarrow> string list \<times> process" where
  "next_element argv p2 =
     (let p3 = p2\<lparr>last_nonopt := min (last_nonopt p2) (optind p2),
                  first_nonopt := min (first_nonopt p2) (optind p2)\<rparr>;
          (argv4, p4) = (if ordering p3 = PERMUTE then permute_step argv p3 else (argv, p3))
      in if optind p4 < length argv4 \<and> argv4 ! optind p4 = ''--''
         then end_of_options argv4 p4 else (argv4, p4))"

text \<open>
  The result is the value returned, \<open>*longind\<close>, \<open>argv\<close> and the process. With an empty
  \<open>optstring\<close> an element that is no option ends the scan under REQUIRE_ORDER, and is
  never met under PERMUTE, which has skipped it. \<open>*longind\<close> is \<open>None\<close> as long as nothing
  was stored there. An element that is an option has two characters at least, so the
  last case of the definition is never taken.
  The C library compares \<open>optind\<close> with \<open>argc\<close> for equality and then reads
  \<open>argv[optind]\<close>; the definition compares with \<open>\<le>\<close>. The two agree as long as
  \<open>optind\<close> is \<open>argc\<close> at most, which holds at every call of a scan that starts in
  \<open>process_start\<close>: \<open>optind\<close> starts at 1 with \<open>argc\<close> 1 at least, and each call leaves
  it at \<open>argc\<close> at most (lemma \<open>getopt_long_sound\<close> for the calls that find an option;
  the loop ends with the others). With \<open>optind\<close> beyond \<open>argc\<close>, which only a caller
  that sets \<open>optind\<close> itself can bring about, the C code reads behind \<open>argv\<close> and the
  definition does not follow it.
\<close>

definition getopt_long ::
  "nat option \<Rightarrow> string list \<Rightarrow> process \<Rightarrow> int \<times> nat option \<times> string list \<times> process" where
  "getopt_long longind argv p0 =
     (if length argv < 1 then (- 1, longind, argv, p0)
      else
        let p2 = getopt_prepare p0
        in case nextchar p2 of
             c # rest \<Rightarrow> (let (r, q) = short_option c rest p2 in (r, longind, argv, q))
           | [] \<Rightarrow>
              (let (argv5, p5) = next_element argv p2
               in if length argv5 \<le> optind p5 then
                    (- 1, longind, argv5,
                     if first_nonopt p5 \<noteq> last_nonopt p5 then p5\<lparr>optind := first_nonopt p5\<rparr> else p5)
                  else if NONOPTION_P (argv5 ! optind p5) then (- 1, longind, argv5, p5)
                  else if argv5 ! optind p5 ! 1 = CHR ''-'' then
                    (let (r, li, q) = process_long_option longind argv5
                                        (p5\<lparr>nextchar := drop 2 (argv5 ! optind p5)\<rparr>)
                     in (r, li, argv5, q))
                  else
                    (case drop 1 (argv5 ! optind p5) of
                       c # rest \<Rightarrow> (let (r, q) = short_option c rest p5 in (r, longind, argv5, q))
                     | [] \<Rightarrow> (- 1, longind, argv5, p5))))"

section \<open>get_args\<close>

text \<open>
  \<open>snprintf (dst, n, "%s", src)\<close> stores at most \<open>n - 1\<close> characters of \<open>src\<close> and
  the terminating zero; with \<open>n = 0\<close> it stores nothing.
\<close>

definition snprintf_s :: "string \<Rightarrow> nat \<Rightarrow> string \<Rightarrow> string" where
  "snprintf_s dst n src = (if n = 0 then dst else take (n - 1) src)"

text \<open>
  The loop over the options ends in one of two ways: \<open>getopt_long\<close> returned -1 and the
  loop is left by \<open>break\<close>, or a case of the switch returns from \<open>get_args\<close>.
  Both carry \<open>argv\<close> as \<open>getopt_long\<close> left it, the file name buffer and the process;
  the early return also carries its status and what it printed.
\<close>

datatype scan =
    Break "string list" string process
  | Return int "string list" string process "event list"

text \<open>
  One pass of the switch on the value \<open>c\<close> that \<open>getopt_long\<close> returned, other than -1:
  the left summand when the case ends in \<open>break\<close> and the loop goes on (with the file
  name buffer), the early return otherwise (with its status and what it printed).
  \<open>PATH_MAX\<close> comes from the system's limits.h and is a parameter. \<open>errmsg\<close> has
  \<open>MAX_STR_LEN\<close> bytes: \<open>sprintf\<close> stays inside it when the message and its terminating
  zero fit.
\<close>

definition switch_c ::
  "nat \<Rightarrow> int \<Rightarrow> nat option \<Rightarrow> string list \<Rightarrow> string \<Rightarrow> process
     \<Rightarrow> error + string + (int \<times> string \<times> event list)" where
  "switch_c PATH_MAX c option_index argv xml p =
     (if c = 0 \<and> option_index = None then Inl Option_index_unset
      else if c = 0 \<and> flag (long_options ! the option_index) \<noteq> None then Inr (Inl xml)
      else if c = 0 \<or> c = 104 then Inr (Inr (FAILURE, xml, usage))
      else if c = 105 then
        (case optarg p of
           None \<Rightarrow> Inl Null_optarg
         | Some a \<Rightarrow> Inr (Inl (snprintf_s xml PATH_MAX a)))
      else if optind p = 0 \<or> length argv \<le> optind p - 1 then Inl Argv_out_of_range
      else
        (let errmsg = ''Unknown option '' @ argv ! (optind p - 1)
         in if MAX_STR_LEN < length errmsg + 1 then Inl Errmsg_overflow
            else (let (status, out) = RETURN_ERROR errmsg ''get_args'' FAILURE
                  in Inr (Inr (status, xml, usage @ out)))))"

text \<open>
  The loop of \<open>get_args\<close> ends: each call of \<open>getopt_long\<close> that finds an option moves
  \<open>optind\<close> forward, and \<open>'?'\<close> leaves the loop.
\<close>

lemma length_exchange:
  "first_nonopt p \<le> optind p \<Longrightarrow> length (fst (exchange argv p)) = length argv"
  by (simp add: exchange_def Let_def)

lemma optind_exchange: "optind (snd (exchange argv p)) = optind p"
  by (simp add: exchange_def Let_def)

lemma permute_step_advances:
  assumes "permute_step argv p = (argv', p')" and "first_nonopt p \<le> optind p"
  shows "length argv' = length argv \<and> optind p \<le> optind p'"
  using assms length_exchange [of p argv] optind_exchange [of argv p]
  by (auto simp: permute_step_def Let_def skip_nonoptions_def split: if_splits prod.splits)

lemma end_of_options_ends:
  assumes "end_of_options argv p = (argv', p')" and "first_nonopt p \<le> optind p"
  shows "length argv' = length argv \<and> optind p' = length argv'"
  using assms length_exchange [of "p\<lparr>optind := optind p + 1\<rparr>" argv]
  by (auto simp: end_of_options_def Let_def split: if_splits prod.splits)

lemma optind_set_flag [simp]: "optind (set_flag f v p) = optind p"
  by (simp add: set_flag_def split: flag_var.splits)

lemma long_option_found_advances:
  "long_option_found i nameend longind argv p = (c, li, q) \<Longrightarrow> optind p < optind q"
  by (auto simp: long_option_found_def Let_def split: if_splits option.splits)

lemma process_long_option_advances:
  "process_long_option longind argv p = (c, li, q) \<Longrightarrow> optind p < optind q"
  by (auto simp: process_long_option_def Let_def
           split: if_splits list.splits dest: long_option_found_advances)

lemma end_of_options_optind:
  "end_of_options argv p = (argv', p') \<Longrightarrow> optind p' = length argv'"
  by (auto simp: end_of_options_def Let_def split: if_splits prod.splits)

lemma optind_getopt_prepare: "optind p \<le> optind (getopt_prepare p)"
  by (simp add: getopt_prepare_def getopt_initialize_def Let_def)

lemma next_element_advances:
  assumes "next_element argv p = (argv', p')"
  shows "optind p' = length argv' \<or> (length argv' = length argv \<and> optind p \<le> optind p')"
proof -
  define p3 where "p3 = p\<lparr>last_nonopt := min (last_nonopt p) (optind p),
                           first_nonopt := min (first_nonopt p) (optind p)\<rparr>"
  obtain argv4 p4 where s4:
    "(if ordering p3 = PERMUTE then permute_step argv p3 else (argv, p3)) = (argv4, p4)"
    by (cases "if ordering p3 = PERMUTE then permute_step argv p3 else (argv, p3)")
  have "first_nonopt p3 \<le> optind p3"
    by (simp add: p3_def)
  then have f4: "length argv4 = length argv \<and> optind p3 \<le> optind p4"
    using s4 permute_step_advances [of argv p3 argv4 p4] by (auto split: if_splits)
  have "next_element argv p =
          (if optind p4 < length argv4 \<and> argv4 ! optind p4 = ''--''
           then end_of_options argv4 p4 else (argv4, p4))"
    using s4 by (simp add: next_element_def Let_def p3_def [symmetric])
  with assms f4 end_of_options_optind [of argv4 p4 argv' p'] show ?thesis
    by (auto simp: p3_def split: if_splits)
qed

lemma getopt_long_advances:
  assumes "getopt_long longind argv p = (c, li, argv', p')" and "c \<noteq> - 1" and "c \<noteq> 63"
  shows "length argv' = length argv \<and> optind p < optind p' \<and> optind p < length argv"
proof -
  obtain argv5 p5 where s5: "next_element argv (getopt_prepare p) = (argv5, p5)"
    by (cases "next_element argv (getopt_prepare p)")
  have nc: "nextchar (getopt_prepare p) = []"
    using assms
    by (auto simp: getopt_long_def Let_def short_option_def split: if_splits list.splits prod.splits)
  have body: "getopt_long longind argv p =
      (if length argv5 \<le> optind p5 then
         (- 1, longind, argv5,
          if first_nonopt p5 \<noteq> last_nonopt p5 then p5\<lparr>optind := first_nonopt p5\<rparr> else p5)
       else if NONOPTION_P (argv5 ! optind p5) then (- 1, longind, argv5, p5)
       else if argv5 ! optind p5 ! 1 = CHR ''-'' then
         (let (r, li, q) = process_long_option longind argv5
                             (p5\<lparr>nextchar := drop 2 (argv5 ! optind p5)\<rparr>)
          in (r, li, argv5, q))
       else
         (case drop 1 (argv5 ! optind p5) of
            c # rest \<Rightarrow> (let (r, q) = short_option c rest p5 in (r, longind, argv5, q))
          | [] \<Rightarrow> (- 1, longind, argv5, p5)))"
    using assms(1,2) nc s5
    by (simp add: getopt_long_def Let_def split: if_splits)
  show ?thesis
    using assms body next_element_advances [OF s5] optind_getopt_prepare [of p]
    by (auto simp: Let_def short_option_def split: if_splits prod.splits list.splits
             dest!: process_long_option_advances)
qed

lemma switch_c_continues:
  "switch_c PATH_MAX c oi argv xml p = Inr (Inl xml') \<Longrightarrow> c \<noteq> 63"
  by (auto simp: switch_c_def Let_def RETURN_ERROR_def split: if_splits option.splits)

text \<open>
  The loop \<open>while (1)\<close>, from the local \<open>option_index\<close> (not initialised by \<open>get_args\<close>:
  \<open>None\<close>), \<open>argv\<close>, the file name buffer and the process.
\<close>

function get_args_loop ::
  "nat \<Rightarrow> nat option \<Rightarrow> string list \<Rightarrow> string \<Rightarrow> process \<Rightarrow> error + scan" where
  "get_args_loop PATH_MAX option_index argv xml p =
     (case getopt_long option_index argv p of
        (c, option_index', argv', p') \<Rightarrow>
          if c = - 1 then Inr (Break argv' xml p')
          else
            (case switch_c PATH_MAX c option_index' argv' xml p' of
               Inl e \<Rightarrow> Inl e
             | Inr (Inr (status, xml', out)) \<Rightarrow> Inr (Return status argv' xml' p' out)
             | Inr (Inl xml') \<Rightarrow> get_args_loop PATH_MAX option_index' argv' xml' p'))"
  by pat_completeness auto

termination
  apply (relation "measure (\<lambda>(PATH_MAX, oi, argv, xml, p). length argv - optind p)")
   apply simp
  apply (auto dest!: switch_c_continues)
  subgoal for option_index argv p c li argv' p'
    using getopt_long_advances [of option_index argv p c li argv' p'] by auto
  done

text \<open>
  \<open>get_args\<close>: the scan, then the check that the file name was given, then the three
  flags stored through the pointers, with the file name printed when \<open>*verbose\<close> is true.
  The result is the status returned, \<open>argv\<close> as the scan left it, the caller's memory,
  the process, and what the call printed.
\<close>

definition get_args ::
  "nat \<Rightarrow> string list \<Rightarrow> config \<Rightarrow> process
     \<Rightarrow> error + (int \<times> string list \<times> config \<times> process \<times> event list)" where
  "get_args PATH_MAX argv cfg p =
     (case get_args_loop PATH_MAX None argv (xml_filename cfg) (p\<lparr>opterr := 0\<rparr>) of
        Inl e \<Rightarrow> Inl e
      | Inr (Return status argv' xml p' out) \<Rightarrow>
          Inr (status, argv', cfg\<lparr>xml_filename := xml\<rparr>, p', out)
      | Inr (Break argv' xml p') \<Rightarrow>
          (let cfg1 = cfg\<lparr>xml_filename := xml\<rparr>
           in if length (xml_filename cfg1) \<le> 0 then
                (let (status, out) = RETURN_ERROR ''XML input file is a required argument''
                                       ''get_args'' FAILURE
                 in Inr (status, argv', cfg1, p', usage @ out))
              else
                (let cfg2 = cfg1\<lparr>use_tape6 := (use_tape6_flag p' \<noteq> 0)\<rparr>;
                     cfg3 = cfg2\<lparr>verbose := (verbose_flag p' \<noteq> 0)\<rparr>;
                     out = (if verbose cfg3
                            then [Printf (''XML_input_file = '' @ xml_filename cfg3 @ ''\<newline>'')]
                            else []);
                     cfg4 = cfg3\<lparr>debug := (debug_flag p' \<noteq> 0)\<rparr>
                 in Inr (SUCCESS, argv', cfg4, p', out))))"

text \<open>
  \<open>parse\<close>: \<open>get_args\<close> in a process that has just started, on the program name
  followed by the tokens.
\<close>

definition parse ::
  "nat \<Rightarrow> bool \<Rightarrow> string \<Rightarrow> string list \<Rightarrow> config
     \<Rightarrow> error + (int \<times> string list \<times> config \<times> process \<times> event list)" where
  "parse PATH_MAX env_posixly_correct prog tokens cfg =
     get_args PATH_MAX (prog # tokens) cfg (process_start env_posixly_correct)"

definition fresh_config :: config where
  "fresh_config = \<lparr>xml_filename = [], use_tape6 = False, verbose = False, debug = False\<rparr>"

section \<open>Notions for the statements\<close>

text \<open>
  What the caller sees of a call: the status, the values in its memory, and the output.
\<close>

definition outcome ::
  "error + (int \<times> string list \<times> config \<times> process \<times> event list) \<Rightarrow> error + (int \<times> config \<times> event list)" where
  "outcome r = (case r of Inl e \<Rightarrow> Inl e | Inr (status, argv, cfg, p, out) \<Rightarrow> Inr (status, cfg, out))"

text \<open>
  The well-formed options that do not end the scan: \<open>--xml=<value>\<close> and the three
  flags, each written in full.
\<close>

definition is_xml_token :: "string \<Rightarrow> bool" where
  "is_xml_token t = (take 6 t = ''--xml='')"

definition plain_token :: "string \<Rightarrow> bool" where
  "plain_token t =
     (t = ''--use-tape6'' \<or> t = ''--verbose'' \<or> t = ''--debug'' \<or> is_xml_token t)"

text \<open>
  The file name buffer after the \<open>--xml=<value>\<close> tokens of a list have been stored into
  it, one after the other.
\<close>

definition scan_xml :: "nat \<Rightarrow> string list \<Rightarrow> string \<Rightarrow> string" where
  "scan_xml PATH_MAX tokens xml =
     foldl (\<lambda>x t. if is_xml_token t then snprintf_s x PATH_MAX (drop 6 t) else x) xml tokens"

text \<open>The value of the last \<open>--xml=<value>\<close> token of a list, if there is one.\<close>

fun last_xml :: "string list \<Rightarrow> string option" where
  "last_xml [] = None"
| "last_xml (t # ts) =
     (case last_xml ts of
        Some v \<Rightarrow> Some v
      | None \<Rightarrow> if is_xml_token t then Some (drop 6 t) else None)"

text \<open>
  A token that \<open>getopt_long\<close> rejects as an unknown long option: it starts with \<open>--\<close>
  and the name after it, up to the first \<open>=\<close>, is no beginning of a name of
  \<open>long_options\<close> (so it is no abbreviation either, and it is not empty).
\<close>

definition unknown_option :: "string \<Rightarrow> bool" where
  "unknown_option t =
     (take 2 t = ''--'' \<and>
      (let nm = takeWhile (\<lambda>c. c \<noteq> CHR ''='') (drop 2 t)
       in \<forall>e \<in> set long_options. take (length nm) (name e) \<noteq> nm))"

section \<open>Notions for the proofs\<close>

text \<open>
  The scanner is between two elements and has skipped no non-option: the state in which
  \<open>getopt_long\<close> is called as long as the tokens are options.
\<close>

definition scanning :: "process \<Rightarrow> bool" where
  "scanning p =
     (optind p \<noteq> 0 \<and>
      (getopt_initialized p \<longrightarrow>
         nextchar p = [] \<and> first_nonopt p = last_nonopt p \<and> last_nonopt p \<le> optind p))"

text \<open>A step of the scanner leaves the environment, \<open>opterr\<close> and the static flags alone.\<close>

definition same_statics :: "process \<Rightarrow> process \<Rightarrow> bool" where
  "same_statics p q =
     (posixly_correct q = posixly_correct p \<and> opterr q = opterr p \<and>
      verbose_flag q = verbose_flag p \<and> debug_flag q = debug_flag p \<and>
      use_tape6_flag q = use_tape6_flag p)"

text \<open>A call of \<open>getopt_long\<close> has taken one element and left the scanner between two elements.\<close>

definition moved_on :: "process \<Rightarrow> process \<Rightarrow> bool" where
  "moved_on p q =
     (scanning q \<and> getopt_initialized q \<and> optind q = optind p + 1 \<and>
      posixly_correct q = posixly_correct p \<and> opterr q = opterr p)"

text \<open>
  What \<open>getopt_long\<close> returns besides -1, with what the switch of \<open>get_args\<close> then
  reads: 0 with the index of an entry that sets a flag, \<open>'h'\<close>, \<open>'i'\<close> with \<open>optarg\<close>
  set, or \<open>'?'\<close>.
\<close>

definition sound_return :: "int \<Rightarrow> nat option \<Rightarrow> process \<Rightarrow> bool" where
  "sound_return c li q =
     ((c = 0 \<and> (\<exists>i. li = Some i \<and> flag (long_options ! i) \<noteq> None))
      \<or> c = 104 \<or> (c = 105 \<and> optarg q \<noteq> None) \<or> c = 63)"

section \<open>The loop over the options\<close>

text \<open>
  One equation for each way a pass of the loop ends, an induction rule that follows the
  passes, and what every early return of the loop looks like: the status is FAILURE,
  and the usage text is printed, alone or followed by the message for an unknown option.
\<close>

lemma switch_c_returns:
  assumes "switch_c PM c oi argv xml p = Inr (Inr (st, xml', out))"
  shows "st = FAILURE \<and> xml' = xml \<and>
         (out = usage_text \<or> (\<exists>tok. out = usage_text @ [Error_message (''Unknown option '' @ tok) ''get_args'']))"
  using assms
  by (auto simp: switch_c_def Let_def RETURN_ERROR_def usage_def split: if_splits option.splits)

declare get_args_loop.simps [simp del]

lemma get_args_loop_break:
  "getopt_long oi argv p = (- 1, oi1, argv1, p1) \<Longrightarrow>
     get_args_loop PM oi argv xml p = Inr (Break argv1 xml p1)"
  by (subst get_args_loop.simps) simp

lemma get_args_loop_continue:
  "getopt_long oi argv p = (c, oi1, argv1, p1) \<Longrightarrow> c \<noteq> - 1 \<Longrightarrow>
   switch_c PM c oi1 argv1 xml p1 = Inr (Inl xml1) \<Longrightarrow>
     get_args_loop PM oi argv xml p = get_args_loop PM oi1 argv1 xml1 p1"
  by (subst get_args_loop.simps) simp

lemma get_args_loop_return:
  "getopt_long oi argv p = (c, oi1, argv1, p1) \<Longrightarrow> c \<noteq> - 1 \<Longrightarrow>
   switch_c PM c oi1 argv1 xml p1 = Inr (Inr (st, xml1, out)) \<Longrightarrow>
     get_args_loop PM oi argv xml p = Inr (Return st argv1 xml1 p1 out)"
  by (subst get_args_loop.simps) simp

lemma get_args_loop_error:
  "getopt_long oi argv p = (c, oi1, argv1, p1) \<Longrightarrow> c \<noteq> - 1 \<Longrightarrow>
   switch_c PM c oi1 argv1 xml p1 = Inl e \<Longrightarrow>
     get_args_loop PM oi argv xml p = Inl e"
  by (subst get_args_loop.simps) simp

lemma get_args_loop_induct [consumes 0, case_names step]:
  assumes "\<And>PM oi argv xml p.
             (\<And>c oi1 argv1 p1 xml1.
                 getopt_long oi argv p = (c, oi1, argv1, p1) \<Longrightarrow> c \<noteq> - 1 \<Longrightarrow>
                 switch_c PM c oi1 argv1 xml p1 = Inr (Inl xml1) \<Longrightarrow> P PM oi1 argv1 xml1 p1)
             \<Longrightarrow> P PM oi argv xml p"
  shows "P PM oi argv xml p"
proof (induction PM oi argv xml p rule: get_args_loop.induct)
  case (1 PM oi argv xml p)
  show ?case
  proof (rule assms)
    fix c oi1 argv1 p1 xml1
    assume g: "getopt_long oi argv p = (c, oi1, argv1, p1)" and c: "c \<noteq> - 1"
      and sw: "switch_c PM c oi1 argv1 xml p1 = Inr (Inl xml1)"
    show "P PM oi1 argv1 xml1 p1"
      by (rule "1.IH" [OF g [symmetric] refl refl c sw refl])
  qed
qed

lemma get_args_loop_returns:
  "get_args_loop PM oi argv xml p = Inr (Return st argv' xml' p' out) \<Longrightarrow>
     st = FAILURE \<and>
     (out = usage_text \<or> (\<exists>tok. out = usage_text @ [Error_message (''Unknown option '' @ tok) ''get_args'']))"
proof (induction PM oi argv xml p rule: get_args_loop_induct)
  case (step PM oi argv xml p)
  obtain c oi1 argv1 p1 where g: "getopt_long oi argv p = (c, oi1, argv1, p1)"
    by (cases "getopt_long oi argv p")
  show ?case
  proof (cases "c = - 1")
    case True
    with g step.prems show ?thesis
      by (simp add: get_args_loop_break)
  next
    case False
    show ?thesis
    proof (cases "switch_c PM c oi1 argv1 xml p1")
      case (Inl e)
      with g False step.prems show ?thesis
        by (simp add: get_args_loop_error)
    next
      case (Inr r)
      show ?thesis
      proof (cases r)
        case (Inl xml1)
        with g False Inr step.prems step.IH [of c oi1 argv1 p1 xml1]
        show ?thesis
          by (simp add: get_args_loop_continue)
      next
        case r: (Inr t)
        obtain st1 xml1 out1 where t: "t = (st1, xml1, out1)" by (cases t)
        with g False Inr r step.prems
        have "st1 = st" "out1 = out"
          by (simp_all add: get_args_loop_return)
        with switch_c_returns [of PM c oi1 argv1 xml p1 st1 xml1 out1] t Inr r
        show ?thesis by simp
      qed
    qed
  qed
qed

section \<open>The scan over well-formed options\<close>

text \<open>
  What \<open>getopt_long\<close> returns on each of the options written in full, in a scanner
  that has skipped no non-option, and the state of the loop after a run of such options.
\<close>

lemma matching_unfold:
  "matching P = filter (\<lambda>i. P (long_options ! i)) [0, 1, 2, 3, 4]"
proof -
  have "[0..<length long_options] = [0, 1, 2, 3, 4]"
    by code_simp
  then show ?thesis by (simp add: matching_def)
qed

lemma long_options_nth:
  "long_options ! 0 = \<lparr>name = ''verbose'', has_arg = no_argument, flag = Some Verbose_flag, val = 1\<rparr>"
  "long_options ! 1 = \<lparr>name = ''debug'', has_arg = no_argument, flag = Some Debug_flag, val = 1\<rparr>"
  "long_options ! Suc 0 = \<lparr>name = ''debug'', has_arg = no_argument, flag = Some Debug_flag, val = 1\<rparr>"
  "long_options ! 2 = \<lparr>name = ''use-tape6'', has_arg = no_argument, flag = Some Use_tape6_flag, val = 1\<rparr>"
  "long_options ! 3 = \<lparr>name = ''xml'', has_arg = required_argument, flag = None, val = 105\<rparr>"
  "long_options ! 4 = \<lparr>name = ''help'', has_arg = no_argument, flag = None, val = 104\<rparr>"
  by (simp_all add: long_options_def)

lemma process_long_option_verbose:
  "nextchar p = ''verbose'' \<Longrightarrow>
     process_long_option oi argv p =
       (0, Some 0, p\<lparr>optind := optind p + 1, nextchar := [], verbose_flag := 1\<rparr>)"
  by (simp add: process_long_option_def matching_unfold long_options_nth long_option_found_def set_flag_def Let_def)

lemma process_long_option_debug:
  "nextchar p = ''debug'' \<Longrightarrow>
     process_long_option oi argv p =
       (0, Some 1, p\<lparr>optind := optind p + 1, nextchar := [], debug_flag := 1\<rparr>)"
  by (simp add: process_long_option_def matching_unfold long_options_nth long_option_found_def set_flag_def Let_def)

lemma process_long_option_use_tape6:
  "nextchar p = ''use-tape6'' \<Longrightarrow>
     process_long_option oi argv p =
       (0, Some 2, p\<lparr>optind := optind p + 1, nextchar := [], use_tape6_flag := 1\<rparr>)"
  by (simp add: process_long_option_def matching_unfold long_options_nth long_option_found_def set_flag_def Let_def)

lemma process_long_option_xml:
  "nextchar p = ''xml='' @ v \<Longrightarrow>
     process_long_option oi argv p =
       (105, Some 3, p\<lparr>optind := optind p + 1, nextchar := [], optarg := Some v\<rparr>)"
  by (simp add: process_long_option_def matching_unfold long_options_nth long_option_found_def set_flag_def Let_def)

lemma process_long_option_help:
  "nextchar p = ''help'' \<Longrightarrow>
     process_long_option oi argv p =
       (104, Some 4, p\<lparr>optind := optind p + 1, nextchar := []\<rparr>)"
  by (simp add: process_long_option_def matching_unfold long_options_nth long_option_found_def set_flag_def Let_def)

lemma getopt_prepare_scanning:
  assumes "scanning p"
  shows "getopt_initialized (getopt_prepare p)" "optind (getopt_prepare p) = optind p"
    "nextchar (getopt_prepare p) = []" "first_nonopt (getopt_prepare p) = last_nonopt (getopt_prepare p)"
    "last_nonopt (getopt_prepare p) \<le> optind p" "optarg (getopt_prepare p) = None"
    "same_statics p (getopt_prepare p)"
  using assms
  by (auto simp: scanning_def getopt_prepare_def getopt_initialize_def Let_def same_statics_def)

lemma skip_nonoptions_option:
  "i < length argv \<Longrightarrow> \<not> NONOPTION_P (argv ! i) \<Longrightarrow> skip_nonoptions argv i = i"
  by (simp add: skip_nonoptions_def Cons_nth_drop_Suc [symmetric])

lemma skip_nonoptions_end:
  "length argv \<le> i \<Longrightarrow> skip_nonoptions argv i = i"
  by (simp add: skip_nonoptions_def)

lemma next_element_option:
  assumes "first_nonopt p = last_nonopt p" and "last_nonopt p \<le> optind p"
    and "length argv \<le> optind p \<or> (\<not> NONOPTION_P (argv ! optind p) \<and> argv ! optind p \<noteq> ''--'')"
  shows "\<exists>f. f \<le> optind p \<and> next_element argv p = (argv, p\<lparr>first_nonopt := f, last_nonopt := f\<rparr>)"
proof (cases "ordering p = PERMUTE")
  case True
  have skip: "skip_nonoptions argv (optind p) = optind p"
    using assms(3) skip_nonoptions_option [of "optind p" argv] skip_nonoptions_end [of argv "optind p"]
    by (cases "length argv \<le> optind p") auto
  have "next_element argv p = (argv, p\<lparr>first_nonopt := optind p, last_nonopt := optind p\<rparr>)"
    using True assms skip
    by (auto simp: next_element_def permute_step_def Let_def min_def)
  then show ?thesis by blast
next
  case False
  have "next_element argv p = (argv, p\<lparr>first_nonopt := first_nonopt p, last_nonopt := first_nonopt p\<rparr>)"
    using False assms
    by (auto simp: next_element_def Let_def min_def)
  with assms show ?thesis by (intro exI [of _ "first_nonopt p"]) simp
qed

lemma getopt_long_long_option:
  assumes "scanning p" and "optind p < length argv"
    and "argv ! optind p = CHR ''-'' # CHR ''-'' # n" and "n \<noteq> []"
  shows "\<exists>p5. getopt_long oi argv p =
                 (case process_long_option oi argv (p5\<lparr>nextchar := n\<rparr>) of
                    (r, li, q) \<Rightarrow> (r, li, argv, q))
              \<and> getopt_initialized p5 \<and> optind p5 = optind p
              \<and> first_nonopt p5 = last_nonopt p5 \<and> last_nonopt p5 \<le> optind p
              \<and> optarg p5 = None \<and> same_statics p p5"
proof -
  let ?p2 = "getopt_prepare p"
  note prep = getopt_prepare_scanning [OF assms(1)]
  have opt: "\<not> NONOPTION_P (argv ! optind ?p2) \<and> argv ! optind ?p2 \<noteq> ''--''"
    using assms(3,4) prep(2) by (simp add: NONOPTION_P_def)
  from next_element_option [of ?p2 argv] prep opt
  obtain f where f: "f \<le> optind p"
    and ne: "next_element argv ?p2 = (argv, ?p2\<lparr>first_nonopt := f, last_nonopt := f\<rparr>)"
    by auto
  let ?p5 = "?p2\<lparr>first_nonopt := f, last_nonopt := f\<rparr>"
  have "getopt_long oi argv p =
          (case process_long_option oi argv (?p5\<lparr>nextchar := n\<rparr>) of
             (r, li, q) \<Rightarrow> (r, li, argv, q))"
    using assms(2,3,4) prep(2,3) ne opt
    by (cases argv) (simp_all add: getopt_long_def Let_def)
  moreover have "getopt_initialized ?p5 \<and> optind ?p5 = optind p
              \<and> first_nonopt ?p5 = last_nonopt ?p5 \<and> last_nonopt ?p5 \<le> optind p
              \<and> optarg ?p5 = None \<and> same_statics p ?p5"
    using prep f by (simp add: same_statics_def)
  ultimately show ?thesis by blast
qed

lemma getopt_long_end:
  assumes "scanning p" and "length argv \<le> optind p" and "1 \<le> length argv"
  shows "\<exists>q. getopt_long oi argv p = (- 1, oi, argv, q)
              \<and> scanning q \<and> getopt_initialized q \<and> optind q = optind p \<and> same_statics p q"
proof -
  let ?p2 = "getopt_prepare p"
  note prep = getopt_prepare_scanning [OF assms(1)]
  from next_element_option [of ?p2 argv] prep assms(2)
  obtain f where f: "f \<le> optind p"
    and ne: "next_element argv ?p2 = (argv, ?p2\<lparr>first_nonopt := f, last_nonopt := f\<rparr>)"
    by auto
  let ?p5 = "?p2\<lparr>first_nonopt := f, last_nonopt := f\<rparr>"
  have "getopt_long oi argv p = (- 1, oi, argv, ?p5)"
    using assms(2,3) prep(2,3) ne
    by (cases argv) (simp_all add: getopt_long_def Let_def)
  moreover have "scanning ?p5 \<and> getopt_initialized ?p5 \<and> optind ?p5 = optind p \<and> same_statics p ?p5"
    using prep f assms(1) by (simp add: same_statics_def scanning_def)
  ultimately show ?thesis by blast
qed

lemma getopt_long_verbose:
  assumes "scanning p" and "optind p < length argv" and "argv ! optind p = ''--verbose''"
  shows "\<exists>q. getopt_long oi argv p = (0, Some 0, argv, q) \<and> moved_on p q
              \<and> verbose_flag q = 1 \<and> debug_flag q = debug_flag p
              \<and> use_tape6_flag q = use_tape6_flag p"
proof -
  from getopt_long_long_option [OF assms(1,2), of "''verbose''" oi] assms(3)
  obtain p5 where g: "getopt_long oi argv p =
                 (case process_long_option oi argv (p5\<lparr>nextchar := ''verbose''\<rparr>) of
                    (r, li, q) \<Rightarrow> (r, li, argv, q))"
    and p5: "getopt_initialized p5" "optind p5 = optind p" "first_nonopt p5 = last_nonopt p5"
      "last_nonopt p5 \<le> optind p" "same_statics p p5"
    by auto
  show ?thesis
    using g p5 assms(1)
    by (simp add: process_long_option_verbose moved_on_def scanning_def same_statics_def)
qed

lemma getopt_long_debug:
  assumes "scanning p" and "optind p < length argv" and "argv ! optind p = ''--debug''"
  shows "\<exists>q. getopt_long oi argv p = (0, Some 1, argv, q) \<and> moved_on p q
              \<and> verbose_flag q = verbose_flag p \<and> debug_flag q = 1
              \<and> use_tape6_flag q = use_tape6_flag p"
proof -
  from getopt_long_long_option [OF assms(1,2), of "''debug''" oi] assms(3)
  obtain p5 where g: "getopt_long oi argv p =
                 (case process_long_option oi argv (p5\<lparr>nextchar := ''debug''\<rparr>) of
                    (r, li, q) \<Rightarrow> (r, li, argv, q))"
    and p5: "getopt_initialized p5" "optind p5 = optind p" "first_nonopt p5 = last_nonopt p5"
      "last_nonopt p5 \<le> optind p" "same_statics p p5"
    by auto
  show ?thesis
    using g p5 assms(1)
    by (simp add: process_long_option_debug moved_on_def scanning_def same_statics_def)
qed

lemma getopt_long_use_tape6:
  assumes "scanning p" and "optind p < length argv" and "argv ! optind p = ''--use-tape6''"
  shows "\<exists>q. getopt_long oi argv p = (0, Some 2, argv, q) \<and> moved_on p q
              \<and> verbose_flag q = verbose_flag p \<and> debug_flag q = debug_flag p
              \<and> use_tape6_flag q = 1"
proof -
  from getopt_long_long_option [OF assms(1,2), of "''use-tape6''" oi] assms(3)
  obtain p5 where g: "getopt_long oi argv p =
                 (case process_long_option oi argv (p5\<lparr>nextchar := ''use-tape6''\<rparr>) of
                    (r, li, q) \<Rightarrow> (r, li, argv, q))"
    and p5: "getopt_initialized p5" "optind p5 = optind p" "first_nonopt p5 = last_nonopt p5"
      "last_nonopt p5 \<le> optind p" "same_statics p p5"
    by auto
  show ?thesis
    using g p5 assms(1)
    by (simp add: process_long_option_use_tape6 moved_on_def scanning_def same_statics_def)
qed

lemma getopt_long_xml:
  assumes "scanning p" and "optind p < length argv" and "argv ! optind p = ''--xml='' @ v"
  shows "\<exists>q. getopt_long oi argv p = (105, Some 3, argv, q) \<and> moved_on p q
              \<and> optarg q = Some v
              \<and> verbose_flag q = verbose_flag p \<and> debug_flag q = debug_flag p
              \<and> use_tape6_flag q = use_tape6_flag p"
proof -
  from getopt_long_long_option [OF assms(1,2), of "''xml='' @ v" oi] assms(3)
  obtain p5 where g: "getopt_long oi argv p =
                 (case process_long_option oi argv (p5\<lparr>nextchar := ''xml='' @ v\<rparr>) of
                    (r, li, q) \<Rightarrow> (r, li, argv, q))"
    and p5: "getopt_initialized p5" "optind p5 = optind p" "first_nonopt p5 = last_nonopt p5"
      "last_nonopt p5 \<le> optind p" "same_statics p p5"
    by auto
  show ?thesis
    using g p5 assms(1) process_long_option_xml [of "p5\<lparr>nextchar := ''xml='' @ v\<rparr>" v oi argv]
    by (simp add: moved_on_def scanning_def same_statics_def)
qed

lemma getopt_long_help:
  assumes "scanning p" and "optind p < length argv" and "argv ! optind p = ''--help''"
  shows "\<exists>q. getopt_long oi argv p = (104, Some 4, argv, q) \<and> moved_on p q
              \<and> verbose_flag q = verbose_flag p \<and> debug_flag q = debug_flag p
              \<and> use_tape6_flag q = use_tape6_flag p"
proof -
  from getopt_long_long_option [OF assms(1,2), of "''help''" oi] assms(3)
  obtain p5 where g: "getopt_long oi argv p =
                 (case process_long_option oi argv (p5\<lparr>nextchar := ''help''\<rparr>) of
                    (r, li, q) \<Rightarrow> (r, li, argv, q))"
    and p5: "getopt_initialized p5" "optind p5 = optind p" "first_nonopt p5 = last_nonopt p5"
      "last_nonopt p5 \<le> optind p" "same_statics p p5"
    by auto
  show ?thesis
    using g p5 assms(1)
    by (simp add: process_long_option_help moved_on_def scanning_def same_statics_def)
qed

lemma is_xml_tokenD: "is_xml_token t \<Longrightarrow> t = ''--xml='' @ drop 6 t"
  unfolding is_xml_token_def by (metis append_take_drop_id)

lemma plain_step:
  assumes "scanning p" and "optind p < length argv" and "argv ! optind p = t" and "plain_token t"
  shows "\<exists>c li q. getopt_long oi argv p = (c, li, argv, q) \<and> c \<noteq> - 1
            \<and> switch_c PM c li argv xml q
                = Inr (Inl (if is_xml_token t then snprintf_s xml PM (drop 6 t) else xml))
            \<and> moved_on p q
            \<and> verbose_flag q = (if t = ''--verbose'' then 1 else verbose_flag p)
            \<and> debug_flag q = (if t = ''--debug'' then 1 else debug_flag p)
            \<and> use_tape6_flag q = (if t = ''--use-tape6'' then 1 else use_tape6_flag p)"
proof -
  consider (u) "t = ''--use-tape6''" | (v) "t = ''--verbose''" | (d) "t = ''--debug''"
    | (x) "is_xml_token t"
    using assms(4) by (auto simp: plain_token_def)
  then show ?thesis
  proof cases
    case u
    with getopt_long_use_tape6 [OF assms(1,2), of oi] assms(3)
    obtain q where "getopt_long oi argv p = (0, Some 2, argv, q)" "moved_on p q"
      "verbose_flag q = verbose_flag p" "debug_flag q = debug_flag p" "use_tape6_flag q = 1"
      by auto
    with u show ?thesis
      by (simp add: switch_c_def long_options_nth is_xml_token_def)
  next
    case v
    with getopt_long_verbose [OF assms(1,2), of oi] assms(3)
    obtain q where "getopt_long oi argv p = (0, Some 0, argv, q)" "moved_on p q"
      "verbose_flag q = 1" "debug_flag q = debug_flag p" "use_tape6_flag q = use_tape6_flag p"
      by auto
    with v show ?thesis
      by (simp add: switch_c_def long_options_nth is_xml_token_def)
  next
    case d
    with getopt_long_debug [OF assms(1,2), of oi] assms(3)
    obtain q where "getopt_long oi argv p = (0, Some 1, argv, q)" "moved_on p q"
      "verbose_flag q = verbose_flag p" "debug_flag q = 1" "use_tape6_flag q = use_tape6_flag p"
      by auto
    with d show ?thesis
      by (simp add: switch_c_def long_options_nth is_xml_token_def)
  next
    case x
    then have t: "t = ''--xml='' @ drop 6 t" by (rule is_xml_tokenD)
    with getopt_long_xml [OF assms(1,2), of "drop 6 t" oi] assms(3)
    obtain q where "getopt_long oi argv p = (105, Some 3, argv, q)" "moved_on p q"
      "optarg q = Some (drop 6 t)"
      "verbose_flag q = verbose_flag p" "debug_flag q = debug_flag p" "use_tape6_flag q = use_tape6_flag p"
      by auto
    moreover have "t \<noteq> ''--verbose''" "t \<noteq> ''--debug''" "t \<noteq> ''--use-tape6''"
      using x by (auto simp: is_xml_token_def)
    ultimately show ?thesis
      using x by (simp add: switch_c_def)
  qed
qed

lemma scan_plain_prefix:
  assumes "scanning p" and "drop (optind p) argv = pre @ rest"
    and "\<forall>t \<in> set pre. plain_token t"
  shows "\<exists>li q. get_args_loop PM oi argv xml p = get_args_loop PM li argv (scan_xml PM pre xml) q
            \<and> scanning q \<and> optind q = optind p + length pre
            \<and> posixly_correct q = posixly_correct p \<and> opterr q = opterr p
            \<and> verbose_flag q = (if ''--verbose'' \<in> set pre then 1 else verbose_flag p)
            \<and> debug_flag q = (if ''--debug'' \<in> set pre then 1 else debug_flag p)
            \<and> use_tape6_flag q = (if ''--use-tape6'' \<in> set pre then 1 else use_tape6_flag p)"
  using assms
proof (induction pre arbitrary: p oi xml)
  case Nil
  then show ?case
    by (intro exI [of _ oi] exI [of _ p]) (simp add: scan_xml_def)
next
  case (Cons t pre)
  from Cons.prems(2) have lt: "optind p < length argv"
    by (cases "optind p < length argv") auto
  with Cons.prems(2) have t: "argv ! optind p = t"
    and rest: "drop (Suc (optind p)) argv = pre @ rest"
    using Cons_nth_drop_Suc [of "optind p" argv] by auto
  from Cons.prems(3) have pt: "plain_token t" by simp
  from plain_step [OF Cons.prems(1) lt t pt, of oi PM xml]
  obtain c li q where g: "getopt_long oi argv p = (c, li, argv, q)" and c: "c \<noteq> - 1"
    and sw: "switch_c PM c li argv xml q
                = Inr (Inl (if is_xml_token t then snprintf_s xml PM (drop 6 t) else xml))"
    and mv: "moved_on p q"
    and fl: "verbose_flag q = (if t = ''--verbose'' then 1 else verbose_flag p)"
      "debug_flag q = (if t = ''--debug'' then 1 else debug_flag p)"
      "use_tape6_flag q = (if t = ''--use-tape6'' then 1 else use_tape6_flag p)"
    by blast
  let ?xml1 = "if is_xml_token t then snprintf_s xml PM (drop 6 t) else xml"
  have step: "get_args_loop PM oi argv xml p = get_args_loop PM li argv ?xml1 q"
    by (rule get_args_loop_continue [OF g c sw])
  from mv rest have q: "scanning q" "drop (optind q) argv = pre @ rest"
    by (simp_all add: moved_on_def)
  from Cons.IH [OF q, of li ?xml1] Cons.prems(3)
  obtain li' q' where
    "get_args_loop PM li argv ?xml1 q = get_args_loop PM li' argv (scan_xml PM pre ?xml1) q'"
    "scanning q'" "optind q' = optind q + length pre"
    "posixly_correct q' = posixly_correct q" "opterr q' = opterr q"
    "verbose_flag q' = (if ''--verbose'' \<in> set pre then 1 else verbose_flag q)"
    "debug_flag q' = (if ''--debug'' \<in> set pre then 1 else debug_flag q)"
    "use_tape6_flag q' = (if ''--use-tape6'' \<in> set pre then 1 else use_tape6_flag q)"
    by auto
  with step mv fl show ?case
    by (intro exI [of _ li'] exI [of _ q']) (auto simp: moved_on_def scan_xml_def)
qed

text \<open>The scan of a process that has just started, over tokens that all are plain.\<close>

lemma scanning_start: "scanning (process_start env\<lparr>opterr := 0\<rparr>)"
  by (simp add: scanning_def process_start_def)

lemma scan_from_start:
  assumes "\<forall>t \<in> set pre. plain_token t"
  shows "\<exists>li q. get_args_loop PM None (prog # pre @ rest) xml (process_start env\<lparr>opterr := 0\<rparr>)
                   = get_args_loop PM li (prog # pre @ rest) (scan_xml PM pre xml) q
            \<and> scanning q \<and> optind q = length pre + 1
            \<and> verbose_flag q = (if ''--verbose'' \<in> set pre then 1 else 0)
            \<and> debug_flag q = (if ''--debug'' \<in> set pre then 1 else 0)
            \<and> use_tape6_flag q = (if ''--use-tape6'' \<in> set pre then 1 else 0)"
proof -
  let ?p0 = "process_start env\<lparr>opterr := 0\<rparr>"
  have f: "optind ?p0 = 1" "verbose_flag ?p0 = 0" "debug_flag ?p0 = 0" "use_tape6_flag ?p0 = 0"
    by (simp_all add: process_start_def)
  then have d: "drop (optind ?p0) (prog # pre @ rest) = pre @ rest"
    by simp
  from scan_plain_prefix [OF scanning_start d assms, of PM None xml]
  obtain li q where
    "get_args_loop PM None (prog # pre @ rest) xml ?p0
       = get_args_loop PM li (prog # pre @ rest) (scan_xml PM pre xml) q"
    "scanning q" "optind q = optind ?p0 + length pre"
    "verbose_flag q = (if ''--verbose'' \<in> set pre then 1 else verbose_flag ?p0)"
    "debug_flag q = (if ''--debug'' \<in> set pre then 1 else debug_flag ?p0)"
    "use_tape6_flag q = (if ''--use-tape6'' \<in> set pre then 1 else use_tape6_flag ?p0)"
    by blast
  with f show ?thesis
    by (intro exI [of _ li] exI [of _ q]) simp
qed

lemma scan_all_plain:
  assumes "\<forall>t \<in> set tokens. plain_token t"
  shows "\<exists>q. get_args_loop PM None (prog # tokens) xml (process_start env\<lparr>opterr := 0\<rparr>)
                = Inr (Break (prog # tokens) (scan_xml PM tokens xml) q)
            \<and> scanning q \<and> getopt_initialized q \<and> optind q = length tokens + 1
            \<and> verbose_flag q = (if ''--verbose'' \<in> set tokens then 1 else 0)
            \<and> debug_flag q = (if ''--debug'' \<in> set tokens then 1 else 0)
            \<and> use_tape6_flag q = (if ''--use-tape6'' \<in> set tokens then 1 else 0)"
proof -
  from scan_from_start [OF assms, of PM prog "[]" xml env]
  obtain li q where l: "get_args_loop PM None (prog # tokens) xml (process_start env\<lparr>opterr := 0\<rparr>)
                   = get_args_loop PM li (prog # tokens) (scan_xml PM tokens xml) q"
    and q: "scanning q" "optind q = length tokens + 1"
      "verbose_flag q = (if ''--verbose'' \<in> set tokens then 1 else 0)"
      "debug_flag q = (if ''--debug'' \<in> set tokens then 1 else 0)"
      "use_tape6_flag q = (if ''--use-tape6'' \<in> set tokens then 1 else 0)"
    by auto
  from getopt_long_end [OF q(1), of "prog # tokens" li] q(2)
  obtain q' where "getopt_long li (prog # tokens) q = (- 1, li, prog # tokens, q')" "scanning q'"
    "getopt_initialized q'" "optind q' = optind q" "same_statics q q'"
    by auto
  with l q show ?thesis
    by (intro exI [of _ q']) (simp add: get_args_loop_break same_statics_def)
qed

section \<open>What a call returns\<close>

text \<open>The three ways \<open>get_args\<close> returns: from inside the loop, without a file name, with one.\<close>

lemma get_args_returned:
  assumes "get_args PM argv cfg p = Inr (st, argv', cfg', p', out)"
  obtains (early) xml where
      "get_args_loop PM None argv (xml_filename cfg) (p\<lparr>opterr := 0\<rparr>) = Inr (Return FAILURE argv' xml p' out)"
      "st = FAILURE" "cfg' = cfg\<lparr>xml_filename := xml\<rparr>"
      "out = usage_text \<or> (\<exists>tok. out = usage_text @ [Error_message (''Unknown option '' @ tok) ''get_args''])"
  | (missing)
      "get_args_loop PM None argv (xml_filename cfg) (p\<lparr>opterr := 0\<rparr>) = Inr (Break argv' [] p')"
      "st = FAILURE" "cfg' = cfg\<lparr>xml_filename := []\<rparr>"
      "out = usage_text @ [Error_message ''XML input file is a required argument'' ''get_args'']"
  | (success) xml where
      "get_args_loop PM None argv (xml_filename cfg) (p\<lparr>opterr := 0\<rparr>) = Inr (Break argv' xml p')"
      "xml \<noteq> []" "st = SUCCESS"
      "cfg' = cfg\<lparr>xml_filename := xml, use_tape6 := (use_tape6_flag p' \<noteq> 0),
                  verbose := (verbose_flag p' \<noteq> 0), debug := (debug_flag p' \<noteq> 0)\<rparr>"
      "out = (if verbose_flag p' \<noteq> 0 then [Printf (''XML_input_file = '' @ xml @ ''\<newline>'')] else [])"
proof (cases "get_args_loop PM None argv (xml_filename cfg) (p\<lparr>opterr := 0\<rparr>)")
  case (Inl e)
  with assms show ?thesis by (simp add: get_args_def)
next
  case (Inr sc)
  show ?thesis
  proof (cases sc)
    case (Break argv1 xml1 p1)
    show ?thesis
    proof (cases "xml1 = []")
      case True
      with Break Inr assms show ?thesis
        by (intro missing) (auto simp: get_args_def Let_def RETURN_ERROR_def usage_def)
    next
      case False
      with Break Inr assms show ?thesis
        by (intro success [of xml1]) (auto simp: get_args_def Let_def)
    qed
  next
    case (Return st1 argv1 xml1 p1 out1)
    with Inr get_args_loop_returns [of PM None argv "xml_filename cfg" "p\<lparr>opterr := 0\<rparr>" st1 argv1 xml1 p1 out1]
    have "st1 = FAILURE"
      "out1 = usage_text \<or> (\<exists>tok. out1 = usage_text @ [Error_message (''Unknown option '' @ tok) ''get_args''])"
      by simp_all
    with Return Inr assms show ?thesis
      by (intro early [of xml1]) (auto simp: get_args_def)
  qed
qed

lemma status_distinct: "SUCCESS \<noteq> FAILURE" "FAILURE \<noteq> SUCCESS"
  by (simp_all add: SUCCESS_def FAILURE_def)

lemma echo_not_in_usage: "Printf (''XML_input_file = '' @ path @ ''\<newline>'') \<notin> set usage_text"
  by (simp add: usage_text_def)

section \<open>The outcome of a parse of well-formed options\<close>

text \<open>
  On plain tokens the outcome is a function of the flags that occur and of the value of
  the last \<open>--xml=<value>\<close>.
\<close>

lemma last_xml_append:
  "last_xml (xs @ ys) = (case last_xml ys of Some v \<Rightarrow> Some v | None \<Rightarrow> last_xml xs)"
  by (induction xs) (auto split: option.splits)

lemma scan_xml_append:
  "scan_xml PM (xs @ ys) x = scan_xml PM ys (scan_xml PM xs x)"
  by (simp add: scan_xml_def)

lemma scan_xml_zero: "scan_xml 0 ts x = x"
  by (induction ts arbitrary: x) (simp_all add: scan_xml_def snprintf_s_def)

lemma scan_xml_last:
  "scan_xml PM ts x = (case last_xml ts of None \<Rightarrow> x | Some v \<Rightarrow> snprintf_s x PM v)"
proof (cases "PM = 0")
  case True
  then show ?thesis
    by (simp add: scan_xml_zero snprintf_s_def split: option.splits)
next
  case False
  show ?thesis
  proof (induction ts rule: rev_induct)
    case Nil
    show ?case by (simp add: scan_xml_def)
  next
    case (snoc t ts)
    have "scan_xml PM (ts @ [t]) x
            = (if is_xml_token t then snprintf_s (scan_xml PM ts x) PM (drop 6 t) else scan_xml PM ts x)"
      by (simp add: scan_xml_def)
    with snoc False show ?case
      by (simp add: last_xml_append snprintf_s_def split: option.splits)
  qed
qed

lemma outcome_parse_plain:
  assumes "\<forall>t \<in> set tokens. plain_token t"
  shows "outcome (parse PM env prog tokens cfg) =
           (let xml = scan_xml PM tokens (xml_filename cfg)
            in if xml = [] then
                 Inr (FAILURE, cfg\<lparr>xml_filename := []\<rparr>,
                      usage_text @ [Error_message ''XML input file is a required argument'' ''get_args''])
               else
                 Inr (SUCCESS,
                      cfg\<lparr>xml_filename := xml, use_tape6 := (''--use-tape6'' \<in> set tokens),
                          verbose := (''--verbose'' \<in> set tokens), debug := (''--debug'' \<in> set tokens)\<rparr>,
                      if ''--verbose'' \<in> set tokens
                      then [Printf (''XML_input_file = '' @ xml @ ''\<newline>'')] else []))"
proof -
  from scan_all_plain [OF assms, of PM prog "xml_filename cfg" env]
  obtain q where "get_args_loop PM None (prog # tokens) (xml_filename cfg) (process_start env\<lparr>opterr := 0\<rparr>)
                = Inr (Break (prog # tokens) (scan_xml PM tokens (xml_filename cfg)) q)"
      "verbose_flag q = (if ''--verbose'' \<in> set tokens then 1 else 0)"
      "debug_flag q = (if ''--debug'' \<in> set tokens then 1 else 0)"
      "use_tape6_flag q = (if ''--use-tape6'' \<in> set tokens then 1 else 0)"
    by auto
  then show ?thesis
    by (simp add: parse_def get_args_def outcome_def Let_def RETURN_ERROR_def usage_def)
qed

lemma last_xml_none: "\<forall>t \<in> set ts. \<not> is_xml_token t \<Longrightarrow> last_xml ts = None"
  by (induction ts) simp_all

lemma last_xml_fixed:
  assumes "\<forall>t \<in> set ts. is_xml_token t \<longrightarrow> t = xt"
  shows "last_xml ts = (if xt \<in> set ts \<and> is_xml_token xt then Some (drop 6 xt) else None)"
  using assms
proof (induction ts)
  case Nil
  show ?case by simp
next
  case (Cons t ts)
  then have IH: "last_xml ts = (if xt \<in> set ts \<and> is_xml_token xt then Some (drop 6 xt) else None)"
    by simp
  show ?case
  proof (cases "is_xml_token t")
    case True
    with Cons.prems have "t = xt" by simp
    with True IH show ?thesis by simp
  next
    case False
    then have "t \<noteq> xt \<or> \<not> is_xml_token xt" by blast
    with False IH show ?thesis by auto
  qed
qed

section \<open>Tokens that end the scan\<close>

text \<open>
  An unknown long option and a final \<open>--xml\<close> without a value make \<open>getopt_long\<close>
  return \<open>'?'\<close>.
\<close>

lemma matching_none: "\<forall>e \<in> set long_options. \<not> P e \<Longrightarrow> matching P = []"
  by (auto simp: matching_def filter_empty_conv)

lemma process_long_option_unknown:
  assumes "\<forall>e \<in> set long_options.
             take (length (takeWhile (\<lambda>c. c \<noteq> CHR ''='') (nextchar p))) (name e)
               \<noteq> takeWhile (\<lambda>c. c \<noteq> CHR ''='') (nextchar p)"
  shows "process_long_option oi argv p = (63, oi, p\<lparr>nextchar := [], optind := optind p + 1\<rparr>)"
proof -
  let ?nm = "takeWhile (\<lambda>c. c \<noteq> CHR ''='') (nextchar p)"
  have "matching (\<lambda>e. take (length ?nm) (name e) = ?nm \<and> length ?nm = length (name e)) = []"
    "matching (\<lambda>e. take (length ?nm) (name e) = ?nm) = []"
    using assms by (auto intro!: matching_none)
  then show ?thesis
    by (simp add: process_long_option_def Let_def)
qed

lemma process_long_option_xml_last:
  "nextchar p = ''xml'' \<Longrightarrow> length argv \<le> optind p + 1 \<Longrightarrow>
     process_long_option oi argv p = (63, oi, p\<lparr>optind := optind p + 1, nextchar := []\<rparr>)"
  by (simp add: process_long_option_def matching_unfold long_options_nth long_option_found_def Let_def)

lemma getopt_long_rejects:
  assumes "scanning p" and "optind p < length argv" and "argv ! optind p = t"
    and "unknown_option t \<or> (t = ''--xml'' \<and> length argv = optind p + 1)"
  shows "\<exists>q. getopt_long oi argv p = (63, oi, argv, q) \<and> optind q = optind p + 1"
proof -
  obtain n where t: "t = CHR ''-'' # CHR ''-'' # n" and n: "n \<noteq> []"
    and rej: "(\<forall>e \<in> set long_options.
                 take (length (takeWhile (\<lambda>c. c \<noteq> CHR ''='') n)) (name e)
                   \<noteq> takeWhile (\<lambda>c. c \<noteq> CHR ''='') n)
              \<or> (n = ''xml'' \<and> length argv = optind p + 1)"
  proof (cases "unknown_option t")
    case True
    then have t2: "take 2 t = ''--''"
      and u: "\<forall>e \<in> set long_options.
                 take (length (takeWhile (\<lambda>c. c \<noteq> CHR ''='') (drop 2 t))) (name e)
                   \<noteq> takeWhile (\<lambda>c. c \<noteq> CHR ''='') (drop 2 t)"
      by (simp_all add: unknown_option_def Let_def)
    from t2 have "t = ''--'' @ drop 2 t"
      by (metis append_take_drop_id)
    moreover have "drop 2 t \<noteq> []"
    proof
      assume d: "drop 2 t = []"
      have "long_options ! 0 \<in> set long_options"
        by (simp add: long_options_def)
      with u d show False by auto
    qed
    ultimately show ?thesis using u that [of "drop 2 t"] by simp
  next
    case False
    with assms(4) show ?thesis using that [of "''xml''"] by simp
  qed
  from getopt_long_long_option [OF assms(1,2) _ n, of oi] assms(3) t
  obtain p5 where g: "getopt_long oi argv p =
                 (case process_long_option oi argv (p5\<lparr>nextchar := n\<rparr>) of
                    (r, li, q) \<Rightarrow> (r, li, argv, q))"
    and p5: "optind p5 = optind p"
    by auto
  from rej show ?thesis
  proof
    assume "\<forall>e \<in> set long_options.
                 take (length (takeWhile (\<lambda>c. c \<noteq> CHR ''='') n)) (name e)
                   \<noteq> takeWhile (\<lambda>c. c \<noteq> CHR ''='') n"
    then have "process_long_option oi argv (p5\<lparr>nextchar := n\<rparr>)
                 = (63, oi, p5\<lparr>nextchar := n\<rparr>\<lparr>nextchar := [], optind := optind (p5\<lparr>nextchar := n\<rparr>) + 1\<rparr>)"
      by (intro process_long_option_unknown) simp
    with g p5 show ?thesis by simp
  next
    assume "n = ''xml'' \<and> length argv = optind p + 1"
    then have "process_long_option oi argv (p5\<lparr>nextchar := n\<rparr>)
                 = (63, oi, p5\<lparr>nextchar := n\<rparr>\<lparr>optind := optind (p5\<lparr>nextchar := n\<rparr>) + 1, nextchar := []\<rparr>)"
      using p5 by (intro process_long_option_xml_last) simp_all
    with g p5 show ?thesis by simp
  qed
qed

section \<open>Every parse returns, short of an overflow of errmsg\<close>

text \<open>
  \<open>getopt_long\<close> keeps the elements of \<open>argv\<close>, returns \<open>'i'\<close> only with \<open>optarg\<close> set
  and 0 only with the index of an entry that sets a flag, and after \<open>'?'\<close> the element
  before \<open>optind\<close> exists.
\<close>

lemma matching_lt:
  assumes "i \<in> set (matching P)"
  shows "i < 5"
proof -
  from assms have "i < length long_options"
    by (simp add: matching_def)
  also have "length long_options = 5"
    by (simp add: long_options_def)
  finally show ?thesis .
qed

lemma long_option_found_sound:
  assumes "i < 5" and "long_option_found i ne li argv p = (c, li', q)" and "optind p < length argv"
  shows "sound_return c li' q \<and> optind q \<le> length argv \<and> optind q \<noteq> 0
         \<and> (c \<noteq> 63 \<longrightarrow> nextchar q = []) \<and> getopt_initialized q = getopt_initialized p"
proof -
  from assms(1) consider "i = 0" | "i = 1" | "i = 2" | "i = 3" | "i = 4"
    by linarith
  then show ?thesis
    using assms(2,3)
    by cases
      (auto simp: long_option_found_def long_options_nth set_flag_def sound_return_def Let_def
            split: if_splits)
qed

lemma process_long_option_sound:
  assumes "process_long_option li argv p = (c, li', q)" and "optind p < length argv"
  shows "sound_return c li' q \<and> optind q \<le> length argv \<and> optind q \<noteq> 0
         \<and> (c \<noteq> 63 \<longrightarrow> nextchar q = []) \<and> getopt_initialized q = getopt_initialized p"
proof -
  let ?nm = "takeWhile (\<lambda>c. c \<noteq> CHR ''='') (nextchar p)"
  let ?ne = "dropWhile (\<lambda>c. c \<noteq> CHR ''='') (nextchar p)"
  consider (rejected) "c = 63" "q = p\<lparr>nextchar := [], optind := optind p + 1\<rparr>"
    | (found) i where "i < 5" "long_option_found i ?ne li argv p = (c, li', q)"
  proof (cases "matching (\<lambda>e. take (length ?nm) (name e) = ?nm \<and> length ?nm = length (name e))")
    case (Cons i others)
    then have "i \<in> set (matching (\<lambda>e. take (length ?nm) (name e) = ?nm \<and> length ?nm = length (name e)))"
      by simp
    then have "i < 5" by (rule matching_lt)
    moreover have "long_option_found i ?ne li argv p = (c, li', q)"
      using assms(1) Cons by (simp add: process_long_option_def Let_def)
    ultimately show ?thesis by (rule found)
  next
    case Nil
    show ?thesis
    proof (cases "matching (\<lambda>e. take (length ?nm) (name e) = ?nm)")
      case n: Nil
      with Nil assms(1) show ?thesis
        by (intro rejected) (simp_all add: process_long_option_def Let_def)
    next
      case (Cons i later)
      then have "i \<in> set (matching (\<lambda>e. take (length ?nm) (name e) = ?nm))"
        by simp
      then have i: "i < 5" by (rule matching_lt)
      show ?thesis
      proof (cases "\<exists>j \<in> set later. \<not> same_action (long_options ! i) (long_options ! j)")
        case True
        with Nil Cons assms(1) show ?thesis
          by (intro rejected) (simp_all add: process_long_option_def Let_def)
      next
        case False
        with Nil Cons assms(1) have "long_option_found i ?ne li argv p = (c, li', q)"
          by (simp add: process_long_option_def Let_def)
        with i show ?thesis by (rule found)
      qed
    qed
  qed
  then show ?thesis
  proof cases
    case rejected
    with assms(2) show ?thesis by (simp add: sound_return_def)
  next
    case (found i)
    with assms(2) show ?thesis by (intro long_option_found_sound)
  qed
qed

lemma set_exchange:
  assumes "first_nonopt p \<le> optind p"
  shows "set (fst (exchange argv p)) = set argv"
proof -
  let ?b = "first_nonopt p" and ?t = "optind p"
  have "drop (?t - ?b) (drop ?b argv) = drop ?t argv"
    using assms by simp
  then have "take (?t - ?b) (drop ?b argv) @ drop ?t argv = drop ?b argv"
    by (metis append_take_drop_id)
  then have "set (take (?t - ?b) (drop ?b argv)) \<union> set (drop ?t argv) = set (drop ?b argv)"
    by (metis set_append)
  moreover have "set (take ?b argv) \<union> set (drop ?b argv) = set argv"
    by (metis append_take_drop_id set_append)
  ultimately have "set (take ?b argv) \<union> (set (take (?t - ?b) (drop ?b argv)) \<union> set (drop ?t argv))
                     = set argv"
    by simp
  then show ?thesis
    by (simp add: exchange_def Let_def)
qed

lemma exchange_keeps:
  "nextchar (snd (exchange argv p)) = nextchar p"
  "getopt_initialized (snd (exchange argv p)) = getopt_initialized p"
  by (simp_all add: exchange_def Let_def)

lemma permute_step_keeps:
  assumes "permute_step argv p = (argv', p')" and "first_nonopt p \<le> optind p"
  shows "set argv' = set argv \<and> nextchar p' = nextchar p
         \<and> getopt_initialized p' = getopt_initialized p"
  using assms set_exchange [of p argv] exchange_keeps [of argv p]
  by (auto simp: permute_step_def Let_def split: if_splits prod.splits)

lemma next_element_keeps:
  assumes "next_element argv p = (argv', p')"
  shows "optind p' = length argv'
         \<or> (length argv' = length argv \<and> set argv' = set argv \<and> optind p \<le> optind p'
            \<and> nextchar p' = nextchar p \<and> getopt_initialized p' = getopt_initialized p)"
proof -
  define p3 where "p3 = p\<lparr>last_nonopt := min (last_nonopt p) (optind p),
                           first_nonopt := min (first_nonopt p) (optind p)\<rparr>"
  obtain argv4 p4 where s4:
    "(if ordering p3 = PERMUTE then permute_step argv p3 else (argv, p3)) = (argv4, p4)"
    by (cases "if ordering p3 = PERMUTE then permute_step argv p3 else (argv, p3)")
  have le: "first_nonopt p3 \<le> optind p3"
    by (simp add: p3_def)
  then have f4: "length argv4 = length argv \<and> optind p3 \<le> optind p4"
    using s4 permute_step_advances [of argv p3 argv4 p4] by (auto split: if_splits)
  have k4: "set argv4 = set argv \<and> nextchar p4 = nextchar p3
            \<and> getopt_initialized p4 = getopt_initialized p3"
    using s4 le permute_step_keeps [of argv p3 argv4 p4] by (auto split: if_splits)
  have "next_element argv p =
          (if optind p4 < length argv4 \<and> argv4 ! optind p4 = ''--''
           then end_of_options argv4 p4 else (argv4, p4))"
    using s4 by (simp add: next_element_def Let_def p3_def [symmetric])
  with assms f4 k4 end_of_options_optind [of argv4 p4 argv' p'] show ?thesis
    by (auto simp: p3_def split: if_splits)
qed

lemma getopt_prepare_ready:
  assumes "getopt_initialized p \<longrightarrow> nextchar p = []"
  shows "nextchar (getopt_prepare p) = []" "getopt_initialized (getopt_prepare p)"
    "optind (getopt_prepare p) \<noteq> 0"
  using assms by (auto simp: getopt_prepare_def getopt_initialize_def Let_def)

lemma getopt_long_sound:
  assumes "getopt_long oi argv p = (c, li, argv', p')" and "c \<noteq> - 1"
    and "getopt_initialized p \<longrightarrow> nextchar p = []"
  shows "sound_return c li p' \<and> length argv' = length argv \<and> set argv' = set argv
         \<and> optind p' \<noteq> 0 \<and> optind p' \<le> length argv' \<and> getopt_initialized p'
         \<and> (c \<noteq> 63 \<longrightarrow> nextchar p' = [])"
proof -
  note prep = getopt_prepare_ready [OF assms(3)]
  obtain argv5 p5 where s5: "next_element argv (getopt_prepare p) = (argv5, p5)"
    by (cases "next_element argv (getopt_prepare p)")
  have body: "getopt_long oi argv p =
      (if length argv5 \<le> optind p5 then
         (- 1, oi, argv5,
          if first_nonopt p5 \<noteq> last_nonopt p5 then p5\<lparr>optind := first_nonopt p5\<rparr> else p5)
       else if NONOPTION_P (argv5 ! optind p5) then (- 1, oi, argv5, p5)
       else if argv5 ! optind p5 ! 1 = CHR ''-'' then
         (let (r, li, q) = process_long_option oi argv5
                             (p5\<lparr>nextchar := drop 2 (argv5 ! optind p5)\<rparr>)
          in (r, li, argv5, q))
       else
         (case drop 1 (argv5 ! optind p5) of
            c # rest \<Rightarrow> (let (r, q) = short_option c rest p5 in (r, oi, argv5, q))
          | [] \<Rightarrow> (- 1, oi, argv5, p5)))"
    using assms(1,2) prep(1) s5
    by (simp add: getopt_long_def Let_def split: if_splits)
  from assms(1,2) body have lt: "optind p5 < length argv5"
    by (auto split: if_splits)
  with next_element_keeps [OF s5] prep
  have k: "length argv5 = length argv" "set argv5 = set argv" "optind p5 \<noteq> 0"
    "getopt_initialized p5"
    by auto
  show ?thesis
  proof (cases "argv5 ! optind p5 ! 1 = CHR ''-''")
    case True
    obtain r li1 q where pl: "process_long_option oi argv5
                             (p5\<lparr>nextchar := drop 2 (argv5 ! optind p5)\<rparr>) = (r, li1, q)"
      by (cases "process_long_option oi argv5 (p5\<lparr>nextchar := drop 2 (argv5 ! optind p5)\<rparr>)")
    with assms(1,2) body True lt have eq: "c = r" "li = li1" "argv' = argv5" "p' = q"
      by (auto split: if_splits)
    from process_long_option_sound [OF pl] lt k eq show ?thesis
      by simp
  next
    case False
    with assms(1,2) body lt k show ?thesis
      by (auto simp: short_option_def sound_return_def Let_def split: if_splits list.splits)
  qed
qed

lemma switch_c_error:
  assumes "switch_c PM c li argv xml q = Inl e" and "sound_return c li q"
    and "optind q \<noteq> 0" and "optind q \<le> length argv"
  shows "e = Errmsg_overflow
         \<and> (\<exists>t \<in> set argv. MAX_STR_LEN < length (''Unknown option '' @ t) + 1)"
proof -
  have "argv ! (optind q - 1) \<in> set argv"
    using assms(3,4) by simp
  with assms show ?thesis
    by (auto simp: switch_c_def sound_return_def Let_def RETURN_ERROR_def
             split: if_splits option.splits)
qed

lemma get_args_loop_overflow:
  "getopt_initialized p \<longrightarrow> nextchar p = [] \<Longrightarrow> get_args_loop PM oi argv xml p = Inl e \<Longrightarrow>
     e = Errmsg_overflow \<and> (\<exists>t \<in> set argv. MAX_STR_LEN < length (''Unknown option '' @ t) + 1)"
proof (induction PM oi argv xml p rule: get_args_loop_induct)
  case (step PM oi argv xml p)
  obtain c oi1 argv1 p1 where g: "getopt_long oi argv p = (c, oi1, argv1, p1)"
    by (cases "getopt_long oi argv p")
  show ?case
  proof (cases "c = - 1")
    case True
    with g step.prems show ?thesis
      by (simp add: get_args_loop_break)
  next
    case False
    note snd = getopt_long_sound [OF g False step.prems(1)]
    show ?thesis
    proof (cases "switch_c PM c oi1 argv1 xml p1")
      case (Inl e1)
      with g False step.prems have "e1 = e"
        by (simp add: get_args_loop_error)
      with Inl switch_c_error [of PM c oi1 argv1 xml p1 e] snd show ?thesis
        by simp
    next
      case (Inr r)
      show ?thesis
      proof (cases r)
        case (Inl xml1)
        with Inr have sw: "switch_c PM c oi1 argv1 xml p1 = Inr (Inl xml1)"
          by simp
        then have "c \<noteq> 63" by (rule switch_c_continues)
        with snd have "getopt_initialized p1 \<longrightarrow> nextchar p1 = []"
          by simp
        moreover have "get_args_loop PM oi1 argv1 xml1 p1 = Inl e"
          using get_args_loop_continue [OF g False sw] step.prems(2) by simp
        ultimately show ?thesis
          using step.IH [OF g False sw] snd by simp
      next
        case r: (Inr t)
        obtain st1 xml1 out1 where "t = (st1, xml1, out1)" by (cases t)
        with g False Inr r step.prems show ?thesis
          by (simp add: get_args_loop_return)
      qed
    qed
  qed
qed

text \<open>
  \<open>parse\<close> returns, with SUCCESS or FAILURE, whenever the program name and every token
  are short enough for the message \<open>Unknown option ...\<close> to fit \<open>errmsg\<close>: the reads
  without a check never go wrong in a process that has just started.
\<close>

lemma parse_returns:
  assumes "\<forall>t \<in> set (prog # tokens). length (''Unknown option '' @ t) < MAX_STR_LEN"
  shows "\<exists>status argv cfg' p out. parse PM env prog tokens cfg = Inr (status, argv, cfg', p, out)"
proof (cases "parse PM env prog tokens cfg")
  case (Inl e)
  then have "get_args_loop PM None (prog # tokens) (xml_filename cfg) (process_start env\<lparr>opterr := 0\<rparr>) = Inl e"
    by (auto simp: parse_def get_args_def Let_def RETURN_ERROR_def split: sum.splits scan.splits if_splits)
  moreover have "getopt_initialized (process_start env\<lparr>opterr := 0\<rparr>)
                   \<longrightarrow> nextchar (process_start env\<lparr>opterr := 0\<rparr>) = []"
    by (simp add: process_start_def)
  ultimately have "\<exists>t \<in> set (prog # tokens). MAX_STR_LEN < length (''Unknown option '' @ t) + 1"
    using get_args_loop_overflow by blast
  with assms show ?thesis by fastforce
next
  case (Inr r)
  then show ?thesis by (cases r) auto
qed

section \<open>The program name\<close>








lemma first_nonopt_set_flag [simp]: "first_nonopt (set_flag f v p) = first_nonopt p"
  by (simp add: set_flag_def split: flag_var.splits)






section \<open>The claims\<close>

text \<open>
  C1, as amended. For every token sequence whose tokens all are \<open>--xml=<value>\<close>,
  \<open>--use-tape6\<close>, \<open>--verbose\<close> or \<open>--debug\<close> (so none is \<open>--help\<close>), and in which the
  last \<open>--xml=<value>\<close> has a non-empty value, \<open>parse\<close> returns SUCCESS with the file name
  equal to that value cut to \<open>PATH_MAX - 1\<close> characters, and each boolean true exactly
  when its flag is among the tokens (\<open>PATH_MAX\<close> at least 2).
\<close>

theorem parse_well_formed_succeeds:
  assumes "\<forall>t \<in> set tokens. plain_token t" and "last_xml tokens = Some v" and "v \<noteq> []"
    and "2 \<le> PM"
  shows "outcome (parse PM env prog tokens cfg) =
           Inr (SUCCESS,
                \<lparr>xml_filename = take (PM - 1) v, use_tape6 = (''--use-tape6'' \<in> set tokens),
                  verbose = (''--verbose'' \<in> set tokens), debug = (''--debug'' \<in> set tokens)\<rparr>,
                if ''--verbose'' \<in> set tokens
                then [Printf (''XML_input_file = '' @ take (PM - 1) v @ ''\<newline>'')] else [])"
proof -
  have "scan_xml PM tokens (xml_filename cfg) = take (PM - 1) v"
    using assms(2,4) by (simp add: scan_xml_last snprintf_s_def)
  moreover have "take (PM - 1) v \<noteq> []"
    using assms(3,4) by simp
  ultimately show ?thesis
    using outcome_parse_plain [OF assms(1), of PM env prog cfg]
    by (cases cfg) (simp add: Let_def)
qed

theorem parse_well_formed_succeeds_witness:
  "outcome (parse 4096 False ''scene_based_lst''
              [''--debug'', ''--xml=a.xml'', ''--xml=LE70390032010263EDC00.xml'', ''--verbose''] fresh_config) =
     Inr (SUCCESS,
          \<lparr>xml_filename = ''LE70390032010263EDC00.xml'', use_tape6 = False, verbose = True, debug = True\<rparr>,
          [Printf ''XML_input_file = LE70390032010263EDC00.xml\<newline>''])"
proof -
  have "\<forall>t \<in> set [''--debug'', ''--xml=a.xml'', ''--xml=LE70390032010263EDC00.xml'', ''--verbose'']. plain_token t"
    by (simp add: plain_token_def is_xml_token_def)
  moreover have "last_xml [''--debug'', ''--xml=a.xml'', ''--xml=LE70390032010263EDC00.xml'', ''--verbose'']
                   = Some ''LE70390032010263EDC00.xml''"
    by (simp add: is_xml_token_def)
  ultimately show ?thesis
    using parse_well_formed_succeeds [of "[''--debug'', ''--xml=a.xml'', ''--xml=LE70390032010263EDC00.xml'', ''--verbose'']"
              "''LE70390032010263EDC00.xml''" 4096 False "''scene_based_lst''" fresh_config]
    by simp
qed

text \<open>
  C1 as stated fails: \<open>--help\<close> is a recognized token, and with it after a well-formed
  \<open>--xml=a.xml\<close> the parse returns FAILURE.
\<close>

theorem help_after_xml_fails:
  "outcome (parse 4096 False ''scene_based_lst'' [''--xml=a.xml'', ''--help''] fresh_config)
     = Inr (FAILURE, \<lparr>xml_filename = ''a.xml'', use_tape6 = False, verbose = False, debug = False\<rparr>,
            usage_text)"
  by code_simp

text \<open>
  C2. Whenever \<open>get_args\<close> returns SUCCESS the file name it leaves is not empty; and
  whenever the scan ends with \<open>getopt_long\<close> out of options and the file name buffer
  empty, \<open>get_args\<close> prints the usage text, reports that the XML input file is a
  required argument, and returns FAILURE. So does \<open>parse\<close> on a configuration with an
  empty file name and on well-formed options among which no \<open>--xml=<value>\<close> occurs, or
  the last one has an empty value.
\<close>

theorem xml_filename_required:
  "(get_args PM argv cfg p = Inr (SUCCESS, argv', cfg', p', out) \<longrightarrow> xml_filename cfg' \<noteq> [])
   \<and> (get_args_loop PM None argv (xml_filename cfg) (p\<lparr>opterr := 0\<rparr>) = Inr (Break argv1 [] p1) \<longrightarrow>
        get_args PM argv cfg p
          = Inr (FAILURE, argv1, cfg\<lparr>xml_filename := []\<rparr>, p1,
                 usage_text @ [Error_message ''XML input file is a required argument'' ''get_args'']))
   \<and> ((\<forall>t \<in> set tokens. plain_token t) \<and> xml_filename cfg = []
          \<and> (last_xml tokens = None \<or> last_xml tokens = Some []) \<longrightarrow>
        outcome (parse PM env prog tokens cfg)
          = Inr (FAILURE, cfg,
                 usage_text @ [Error_message ''XML input file is a required argument'' ''get_args'']))"
proof (intro conjI impI)
  assume a: "(\<forall>t \<in> set tokens. plain_token t) \<and> xml_filename cfg = []
          \<and> (last_xml tokens = None \<or> last_xml tokens = Some [])"
  then have "scan_xml PM tokens (xml_filename cfg) = []"
    by (auto simp: scan_xml_last snprintf_s_def)
  with a outcome_parse_plain [of tokens PM env prog cfg]
  show "outcome (parse PM env prog tokens cfg)
          = Inr (FAILURE, cfg,
                 usage_text @ [Error_message ''XML input file is a required argument'' ''get_args''])"
    by (cases cfg) (simp add: Let_def)
next
  assume "get_args PM argv cfg p = Inr (SUCCESS, argv', cfg', p', out)"
  then show "xml_filename cfg' \<noteq> []"
    by (cases rule: get_args_returned) (simp_all add: status_distinct)
next
  assume "get_args_loop PM None argv (xml_filename cfg) (p\<lparr>opterr := 0\<rparr>) = Inr (Break argv1 [] p1)"
  then show "get_args PM argv cfg p
          = Inr (FAILURE, argv1, cfg\<lparr>xml_filename := []\<rparr>, p1,
                 usage_text @ [Error_message ''XML input file is a required argument'' ''get_args''])"
    by (simp add: get_args_def RETURN_ERROR_def usage_def)
qed

theorem xml_filename_required_witness:
  "outcome (get_args 4096 [''scene_based_lst''] fresh_config (process_start False))
     = Inr (FAILURE, fresh_config,
            usage_text @ [Error_message ''XML input file is a required argument'' ''get_args''])
   \<and> outcome (get_args 4096 [''scene_based_lst'', ''--xml=''] fresh_config (process_start False))
     = Inr (FAILURE, fresh_config,
            usage_text @ [Error_message ''XML input file is a required argument'' ''get_args''])
   \<and> outcome (parse 4096 False ''scene_based_lst'' [''--verbose'', ''--debug''] fresh_config)
     = Inr (FAILURE, fresh_config,
            usage_text @ [Error_message ''XML input file is a required argument'' ''get_args''])
   \<and> xml_filename \<lparr>xml_filename = ''a.xml'', use_tape6 = False, verbose = False, debug = False\<rparr> \<noteq> []"
proof -
  have none: "get_args_loop 4096 None [''scene_based_lst''] (xml_filename fresh_config)
                (process_start False\<lparr>opterr := 0\<rparr>)
     = Inr (Break [''scene_based_lst''] []
          \<lparr>posixly_correct = False, opterr = 0, optind = 1, optarg = None,
            getopt_initialized = True, nextchar = [], ordering = PERMUTE,
            first_nonopt = 1, last_nonopt = 1, verbose_flag = 0,
            debug_flag = 0, use_tape6_flag = 0\<rparr>)"
    by code_simp
  have empty: "get_args_loop 4096 None [''scene_based_lst'', ''--xml=''] (xml_filename fresh_config)
                (process_start False\<lparr>opterr := 0\<rparr>)
     = Inr (Break [''scene_based_lst'', ''--xml=''] []
          \<lparr>posixly_correct = False, opterr = 0, optind = 2, optarg = None,
            getopt_initialized = True, nextchar = [], ordering = PERMUTE,
            first_nonopt = 2, last_nonopt = 2, verbose_flag = 0,
            debug_flag = 0, use_tape6_flag = 0\<rparr>)"
    by code_simp
  have given: "get_args 4096 [''scene_based_lst'', ''--xml=a.xml''] fresh_config (process_start False)
     = Inr (SUCCESS, [''scene_based_lst'', ''--xml=a.xml''],
          \<lparr>xml_filename = ''a.xml'', use_tape6 = False, verbose = False, debug = False\<rparr>,
          \<lparr>posixly_correct = False, opterr = 0, optind = 2, optarg = None,
            getopt_initialized = True, nextchar = [], ordering = PERMUTE,
            first_nonopt = 2, last_nonopt = 2, verbose_flag = 0,
            debug_flag = 0, use_tape6_flag = 0\<rparr>, [])"
    by code_simp
  have flags: "(\<forall>t \<in> set [''--verbose'', ''--debug'']. plain_token t)
                 \<and> xml_filename fresh_config = []
                 \<and> (last_xml [''--verbose'', ''--debug''] = None
                      \<or> last_xml [''--verbose'', ''--debug''] = Some [])"
    by (simp add: plain_token_def is_xml_token_def fresh_config_def)
  note r = xml_filename_required [THEN conjunct2, THEN conjunct1, rule_format]
  show ?thesis
    using r [OF none] r [OF empty]
      xml_filename_required [THEN conjunct1, rule_format, OF given]
      xml_filename_required [THEN conjunct2, THEN conjunct2, rule_format, OF flags]
    by (simp add: outcome_def fresh_config_def)
qed

text \<open>
  C3, as amended. For every token sequence in which a \<open>--help\<close> token has only
  \<open>--xml=<value>\<close>, \<open>--use-tape6\<close>, \<open>--verbose\<close> and \<open>--debug\<close> tokens before it, \<open>parse\<close>
  prints the usage text, and nothing else, and returns FAILURE, whatever tokens follow.
\<close>

theorem help_reached_fails:
  assumes "\<forall>t \<in> set pre. plain_token t"
  shows "outcome (parse PM env prog (pre @ ''--help'' # post) cfg)
           = Inr (FAILURE, cfg\<lparr>xml_filename := scan_xml PM pre (xml_filename cfg)\<rparr>, usage_text)"
proof -
  let ?argv = "prog # pre @ ''--help'' # post"
  let ?xml = "scan_xml PM pre (xml_filename cfg)"
  from scan_from_start [OF assms, of PM prog "''--help'' # post" "xml_filename cfg" env]
  obtain li q where l: "get_args_loop PM None ?argv (xml_filename cfg) (process_start env\<lparr>opterr := 0\<rparr>)
                   = get_args_loop PM li ?argv ?xml q"
    and q: "scanning q" "optind q = length pre + 1"
    by auto
  have at: "optind q < length ?argv" "?argv ! optind q = ''--help''"
    using q(2) by (simp_all add: nth_append)
  from getopt_long_help [OF q(1) at, of li]
  obtain q' where g: "getopt_long li ?argv q = (104, Some 4, ?argv, q')"
    by auto
  have sw: "switch_c PM 104 (Some 4) ?argv ?xml q' = Inr (Inr (FAILURE, ?xml, usage_text))"
    by (simp add: switch_c_def usage_def)
  have "get_args_loop PM li ?argv ?xml q = Inr (Return FAILURE ?argv ?xml q' usage_text)"
    by (rule get_args_loop_return [OF g _ sw]) simp
  with l show ?thesis
    by (simp add: parse_def get_args_def outcome_def)
qed

theorem help_reached_fails_witness:
  "outcome (parse 4096 False ''scene_based_lst'' [''--verbose'', ''--xml=a.xml'', ''--help'', ''--bogus''] fresh_config)
     = Inr (FAILURE, \<lparr>xml_filename = ''a.xml'', use_tape6 = False, verbose = False, debug = False\<rparr>,
            usage_text)"
proof -
  have "\<forall>t \<in> set [''--verbose'', ''--xml=a.xml'']. plain_token t"
    by (simp add: plain_token_def is_xml_token_def)
  moreover have "scan_xml 4096 [''--verbose'', ''--xml=a.xml''] (xml_filename fresh_config) = ''a.xml''"
    by (simp add: scan_xml_def is_xml_token_def snprintf_s_def)
  ultimately show ?thesis
    using help_reached_fails [of "[''--verbose'', ''--xml=a.xml'']" 4096 False "''scene_based_lst''"
            "[''--bogus'']" fresh_config]
    by (simp add: fresh_config_def)
qed

text \<open>
  C3 as stated fails: a \<open>--help\<close> that follows \<open>--xml\<close> is taken as the file name, a
  \<open>--help\<close> that follows \<open>--\<close> is no option, and both parses return SUCCESS.
\<close>

theorem help_as_xml_value_succeeds:
  "outcome (parse 4096 False ''scene_based_lst'' [''--xml'', ''--help''] fresh_config)
     = Inr (SUCCESS, \<lparr>xml_filename = ''--help'', use_tape6 = False, verbose = False, debug = False\<rparr>, [])
   \<and> outcome (parse 4096 False ''scene_based_lst'' [''--xml=a.xml'', ''--'', ''--help''] fresh_config)
     = Inr (SUCCESS, \<lparr>xml_filename = ''a.xml'', use_tape6 = False, verbose = False, debug = False\<rparr>, [])"
  by code_simp

text \<open>
  C4, as amended. For every token sequence in which only \<open>--xml=<value>\<close>, \<open>--use-tape6\<close>,
  \<open>--verbose\<close> and \<open>--debug\<close> tokens come before a token that is an unknown long option,
  or before a final \<open>--xml\<close> without a value, and that token is short enough for its
  message to fit \<open>errmsg\<close>, \<open>parse\<close> prints the usage text, then reports
  \<open>Unknown option\<close> with that token, and returns FAILURE.
\<close>

theorem unknown_option_reported:
  assumes "\<forall>t \<in> set pre. plain_token t"
    and "unknown_option t \<or> (t = ''--xml'' \<and> post = [])"
    and "length (''Unknown option '' @ t) < MAX_STR_LEN"
  shows "outcome (parse PM env prog (pre @ t # post) cfg)
           = Inr (FAILURE, cfg\<lparr>xml_filename := scan_xml PM pre (xml_filename cfg)\<rparr>,
                  usage_text @ [Error_message (''Unknown option '' @ t) ''get_args''])"
proof -
  let ?argv = "prog # pre @ t # post"
  let ?xml = "scan_xml PM pre (xml_filename cfg)"
  from scan_from_start [OF assms(1), of PM prog "t # post" "xml_filename cfg" env]
  obtain li q where l: "get_args_loop PM None ?argv (xml_filename cfg) (process_start env\<lparr>opterr := 0\<rparr>)
                   = get_args_loop PM li ?argv ?xml q"
    and q: "scanning q" "optind q = length pre + 1"
    by auto
  have at: "optind q < length ?argv" "?argv ! optind q = t"
    using q(2) by (simp_all add: nth_append)
  have rej: "unknown_option t \<or> (t = ''--xml'' \<and> length ?argv = optind q + 1)"
    using assms(2) q(2) by auto
  from getopt_long_rejects [OF q(1) at rej, of li]
  obtain q' where g: "getopt_long li ?argv q = (63, li, ?argv, q')" and o: "optind q' = optind q + 1"
    by auto
  have sw: "switch_c PM 63 li ?argv ?xml q'
              = Inr (Inr (FAILURE, ?xml, usage_text @ [Error_message (''Unknown option '' @ t) ''get_args'']))"
    using o q(2) assms(3)
    by (simp add: switch_c_def usage_def RETURN_ERROR_def nth_append Let_def)
  have "get_args_loop PM li ?argv ?xml q
          = Inr (Return FAILURE ?argv ?xml q' (usage_text @ [Error_message (''Unknown option '' @ t) ''get_args'']))"
    by (rule get_args_loop_return [OF g _ sw]) simp
  with l show ?thesis
    by (simp add: parse_def get_args_def outcome_def)
qed

theorem unknown_option_reported_witness:
  "outcome (parse 4096 False ''scene_based_lst'' [''--xml=a.xml'', ''--bogus''] fresh_config)
     = Inr (FAILURE, \<lparr>xml_filename = ''a.xml'', use_tape6 = False, verbose = False, debug = False\<rparr>,
            usage_text @ [Error_message ''Unknown option --bogus'' ''get_args''])"
proof -
  have "\<forall>t \<in> set [''--xml=a.xml'']. plain_token t"
    by (simp add: plain_token_def is_xml_token_def)
  moreover have "unknown_option ''--bogus''"
    by (simp add: unknown_option_def long_options_def)
  moreover have "length (''Unknown option '' @ ''--bogus'') < MAX_STR_LEN"
    by (simp add: MAX_STR_LEN_def)
  moreover have "scan_xml 4096 [''--xml=a.xml''] (xml_filename fresh_config) = ''a.xml''"
    by (simp add: scan_xml_def is_xml_token_def snprintf_s_def)
  ultimately show ?thesis
    using unknown_option_reported [of "[''--xml=a.xml'']" "''--bogus''" "[]" 4096 False
            "''scene_based_lst''" fresh_config]
    by (simp add: fresh_config_def)
qed

text \<open>
  C4 as stated fails: a token that is no option at all is skipped and the parse returns
  SUCCESS, and an unknown option after \<open>--help\<close> is never reported.
\<close>

theorem unrecognized_token_not_reported:
  "outcome (parse 4096 False ''scene_based_lst'' [''--xml=a.xml'', ''stray''] fresh_config)
     = Inr (SUCCESS, \<lparr>xml_filename = ''a.xml'', use_tape6 = False, verbose = False, debug = False\<rparr>, [])
   \<and> outcome (parse 4096 False ''scene_based_lst'' [''--help'', ''--bogus''] fresh_config)
     = Inr (FAILURE, fresh_config, usage_text)"
  by code_simp




text \<open>
  C6. For every token sequence made of one fixed token \<open>--xml=<value>\<close> and the flags
  \<open>--use-tape6\<close>, \<open>--verbose\<close>, \<open>--debug\<close>, every permutation of the tokens gives the same
  status, the same values in the caller's memory and the same output.
\<close>

theorem flag_order_is_irrelevant:
  assumes "mset tokens' = mset tokens"
    and "set tokens \<subseteq> {''--xml='' @ v, ''--use-tape6'', ''--verbose'', ''--debug''}"
  shows "outcome (parse PM env prog tokens' cfg) = outcome (parse PM env prog tokens cfg)"
proof -
  have same: "set tokens' = set tokens"
    using assms(1) by (rule mset_eq_setD)
  have x: "is_xml_token (''--xml='' @ v)"
    by (simp add: is_xml_token_def)
  have plain: "\<forall>t \<in> set tokens. plain_token t"
    using assms(2) x by (auto simp: plain_token_def)
  have only: "\<forall>t \<in> set tokens. is_xml_token t \<longrightarrow> t = ''--xml='' @ v"
    using assms(2) by (auto simp: is_xml_token_def)
  have "last_xml tokens' = last_xml tokens"
    using last_xml_fixed [of tokens "''--xml='' @ v"] last_xml_fixed [of tokens' "''--xml='' @ v"]
      only same by simp
  then have "scan_xml PM tokens' (xml_filename cfg) = scan_xml PM tokens (xml_filename cfg)"
    by (simp add: scan_xml_last)
  then show ?thesis
    using outcome_parse_plain [of tokens PM env prog cfg]
      outcome_parse_plain [of tokens' PM env prog cfg] plain same
    by (simp add: Let_def)
qed

theorem flag_order_is_irrelevant_witness:
  "outcome (parse 4096 False ''scene_based_lst'' [''--verbose'', ''--xml=a.xml'', ''--debug''] fresh_config)
     = outcome (parse 4096 False ''scene_based_lst'' [''--debug'', ''--verbose'', ''--xml=a.xml''] fresh_config)
   \<and> outcome (parse 4096 False ''scene_based_lst'' [''--debug'', ''--verbose'', ''--xml=a.xml''] fresh_config)
     = Inr (SUCCESS, \<lparr>xml_filename = ''a.xml'', use_tape6 = False, verbose = True, debug = True\<rparr>,
            [Printf ''XML_input_file = a.xml\<newline>''])"
proof -
  have "mset [''--verbose'', ''--xml=a.xml'', ''--debug''] = mset [''--debug'', ''--verbose'', ''--xml=a.xml'']"
    by simp
  moreover have "set [''--debug'', ''--verbose'', ''--xml=a.xml'']
                   \<subseteq> {''--xml='' @ ''a.xml'', ''--use-tape6'', ''--verbose'', ''--debug''}"
    by simp
  moreover have "outcome (parse 4096 False ''scene_based_lst'' [''--debug'', ''--verbose'', ''--xml=a.xml''] fresh_config)
     = Inr (SUCCESS, \<lparr>xml_filename = ''a.xml'', use_tape6 = False, verbose = True, debug = True\<rparr>,
            [Printf ''XML_input_file = a.xml\<newline>''])"
    by code_simp
  ultimately show ?thesis
    using flag_order_is_irrelevant [of "[''--verbose'', ''--xml=a.xml'', ''--debug'']"
            "[''--debug'', ''--verbose'', ''--xml=a.xml'']" "''a.xml''" 4096 False "''scene_based_lst''" fresh_config]
    by simp
qed

text \<open>
  C7, as amended. In a sequence of well-formed options (\<open>--xml=<value>\<close> and the three
  flags) that holds a token \<open>--xml=<value>\<close>, the last such token decides, whatever
  \<open>--xml=<value>\<close> tokens and flags come before it, and however often a flag is
  repeated: with \<open>PATH_MAX\<close> 1 at least, if its value cut to \<open>PATH_MAX - 1\<close> characters
  is not empty the parse returns SUCCESS, the file name is that value, each boolean is
  true exactly when its flag occurs, and the only output is the line for \<open>--verbose\<close>;
  if it is empty the parse returns FAILURE after the usage text and the message for the
  missing file name.
\<close>

theorem last_xml_token_decides:
  assumes "\<forall>t \<in> set (pre @ post). plain_token t" and "\<forall>t \<in> set post. \<not> is_xml_token t"
    and "1 \<le> PM"
  shows "outcome (parse PM env prog (pre @ (''--xml='' @ v) # post) cfg) =
           (if take (PM - 1) v = [] then
              Inr (FAILURE, cfg\<lparr>xml_filename := []\<rparr>,
                   usage_text @ [Error_message ''XML input file is a required argument'' ''get_args''])
            else
              Inr (SUCCESS,
                   \<lparr>xml_filename = take (PM - 1) v, use_tape6 = (''--use-tape6'' \<in> set (pre @ post)),
                     verbose = (''--verbose'' \<in> set (pre @ post)),
                     debug = (''--debug'' \<in> set (pre @ post))\<rparr>,
                   if ''--verbose'' \<in> set (pre @ post)
                   then [Printf (''XML_input_file = '' @ take (PM - 1) v @ ''\<newline>'')] else []))"
proof -
  let ?x = "''--xml='' @ v"
  let ?tokens = "pre @ ?x # post"
  have x: "is_xml_token ?x" "drop 6 ?x = v"
    by (simp_all add: is_xml_token_def)
  then have plain: "\<forall>t \<in> set ?tokens. plain_token t"
    using assms(1) by (auto simp: plain_token_def)
  have "last_xml ?tokens = Some v"
    using x last_xml_none [OF assms(2)] by (simp add: last_xml_append)
  then have xml: "scan_xml PM ?tokens (xml_filename cfg) = take (PM - 1) v"
    using assms(3) by (simp add: scan_xml_last snprintf_s_def)
  have flags: "''--use-tape6'' \<in> set ?tokens \<longleftrightarrow> ''--use-tape6'' \<in> set (pre @ post)"
    "''--verbose'' \<in> set ?tokens \<longleftrightarrow> ''--verbose'' \<in> set (pre @ post)"
    "''--debug'' \<in> set ?tokens \<longleftrightarrow> ''--debug'' \<in> set (pre @ post)"
    by auto
  show ?thesis
    unfolding outcome_parse_plain [OF plain] xml flags
    by (cases cfg) (simp add: Let_def)
qed

theorem last_xml_token_decides_witness:
  "outcome (parse 4096 False ''scene_based_lst'' [''--xml=a.xml'', ''--xml=b.xml''] fresh_config)
     = Inr (SUCCESS, \<lparr>xml_filename = ''b.xml'', use_tape6 = False, verbose = False, debug = False\<rparr>, [])
   \<and> outcome (parse 4096 False ''scene_based_lst''
                 [''--verbose'', ''--xml=b.xml'', ''--verbose'', ''--xml=a.xml'', ''--debug'', ''--debug'']
                 fresh_config)
     = Inr (SUCCESS, \<lparr>xml_filename = ''a.xml'', use_tape6 = False, verbose = True, debug = True\<rparr>,
            [Printf ''XML_input_file = a.xml\<newline>''])"
proof -
  have p1: "\<forall>t \<in> set ([''--xml=a.xml''] @ []). plain_token t"
    and p2: "\<forall>t \<in> set ([''--verbose'', ''--xml=b.xml'', ''--verbose''] @ [''--debug'', ''--debug'']). plain_token t"
    by (simp_all add: plain_token_def is_xml_token_def)
  have n1: "\<forall>t \<in> set ([] :: string list). \<not> is_xml_token t"
    and n2: "\<forall>t \<in> set [''--debug'', ''--debug'']. \<not> is_xml_token t"
    by (simp_all add: is_xml_token_def)
  have pm: "1 \<le> (4096 :: nat)"
    by simp
  show ?thesis
    using last_xml_token_decides [OF p1 n1 pm, of False "''scene_based_lst''" "''b.xml''" fresh_config]
      last_xml_token_decides [OF p2 n2 pm, of False "''scene_based_lst''" "''a.xml''" fresh_config]
    by simp
qed

text \<open>
  C7 as stated fails: when the last \<open>--xml=<value>\<close> has an empty value it wins and the
  parse ends in the error for the missing file name, and a \<open>--xml=<value>\<close> after the
  element \<open>--\<close> is no option any more, so the occurrence before it stays.
\<close>

theorem repeated_xml_last_does_not_win:
  "outcome (parse 4096 False ''scene_based_lst'' [''--xml=a.xml'', ''--xml=''] fresh_config)
     = Inr (FAILURE, fresh_config,
            usage_text @ [Error_message ''XML input file is a required argument'' ''get_args''])
   \<and> outcome (parse 4096 False ''scene_based_lst'' [''--xml=a.xml'', ''--'', ''--xml=b.xml''] fresh_config)
     = Inr (SUCCESS, \<lparr>xml_filename = ''a.xml'', use_tape6 = False, verbose = False, debug = False\<rparr>, [])"
  by code_simp

text \<open>
  C8. When \<open>get_args\<close> returns SUCCESS with \<open>*verbose\<close> true, what it printed is exactly
  one line, \<open>XML_input_file = \<close> followed by the file name it stored; in every other
  return no line of that form is printed.
\<close>

theorem verbose_echoes_xml_filename:
  assumes "get_args PM argv cfg p = Inr (st, argv', cfg', p', out)"
  shows "(st = SUCCESS \<and> verbose cfg' \<longrightarrow>
            out = [Printf (''XML_input_file = '' @ xml_filename cfg' @ ''\<newline>'')])
         \<and> (\<not> (st = SUCCESS \<and> verbose cfg') \<longrightarrow>
              (\<forall>path. Printf (''XML_input_file = '' @ path @ ''\<newline>'') \<notin> set out))"
  using assms
proof (cases rule: get_args_returned)
  case (early xml)
  then show ?thesis
    using echo_not_in_usage by (auto simp: status_distinct)
next
  case missing
  then show ?thesis
    using echo_not_in_usage by (auto simp: status_distinct)
next
  case (success xml)
  then show ?thesis by simp
qed

theorem verbose_echoes_xml_filename_witness:
  "get_args 4096 [''scene_based_lst'', ''--xml=a.xml'', ''--verbose''] fresh_config (process_start False)
     = Inr (SUCCESS, [''scene_based_lst'', ''--xml=a.xml'', ''--verbose''],
          \<lparr>xml_filename = ''a.xml'', use_tape6 = False, verbose = True, debug = False\<rparr>,
          \<lparr>posixly_correct = False, opterr = 0, optind = 3, optarg = None,
            getopt_initialized = True, nextchar = [], ordering = PERMUTE,
            first_nonopt = 3, last_nonopt = 3, verbose_flag = 1,
            debug_flag = 0, use_tape6_flag = 0\<rparr>,
          [Printf ''XML_input_file = a.xml\<newline>''])
   \<and> [Printf ''XML_input_file = a.xml\<newline>'']
       = [Printf (''XML_input_file = '' @
            xml_filename \<lparr>xml_filename = ''a.xml'', use_tape6 = False, verbose = True, debug = False\<rparr>
            @ ''\<newline>'')]"
proof -
  have run: "get_args 4096 [''scene_based_lst'', ''--xml=a.xml'', ''--verbose''] fresh_config (process_start False)
     = Inr (SUCCESS, [''scene_based_lst'', ''--xml=a.xml'', ''--verbose''],
          \<lparr>xml_filename = ''a.xml'', use_tape6 = False, verbose = True, debug = False\<rparr>,
          \<lparr>posixly_correct = False, opterr = 0, optind = 3, optarg = None,
            getopt_initialized = True, nextchar = [], ordering = PERMUTE,
            first_nonopt = 3, last_nonopt = 3, verbose_flag = 1,
            debug_flag = 0, use_tape6_flag = 0\<rparr>,
          [Printf ''XML_input_file = a.xml\<newline>''])"
    by code_simp
  show ?thesis
    using verbose_echoes_xml_filename [OF run] run by simp
qed





end
